theory Spec2Isabelle
  imports Complex_Main "HOL-Library.Word"
begin

unbundle bit_operations_syntax

section \<open>The BLE gateway: data model\<close>

text \<open>
  A shallow embedding of \<^verbatim>\<open>src/ble_gateway.py\<close>. Python values are modelled as follows.
  \<^item> \<^verbatim>\<open>int\<close> is \<open>int\<close> (unbounded); \<^verbatim>\<open>bytes\<close> is a list of \<open>8 word\<close>.
  \<^item> \<^verbatim>\<open>str\<close> is \<open>string\<close>: a list of code points below 256. Case mapping is modelled on the
    ASCII letters only.
  \<^item> A \<^verbatim>\<open>dict\<close> is an association list in insertion order (Python iterates a dict in
    insertion order); keys are unique.
  \<^item> \<^verbatim>\<open>Optional[t]\<close> is \<open>t option\<close>.
  \<^item> Clock readings (\<^verbatim>\<open>time.time()\<close>) and the publish interval are Python floats; they are
    modelled as real numbers, and every function that reads the clock takes the reading
    as an argument.
  \<^item> An exception is a value \<open>Inl e\<close> of a sum type.
\<close>

type_synonym byte = "8 word"

datatype py_error = ValueError | TypeError | AttributeError

text \<open>The dataclass \<^verbatim>\<open>BLEMessage\<close> (lines 90-100).\<close>

record BLEMessage =
  timestamp_ms :: int
  device_address :: string
  device_name :: "string option"
  rssi :: int
  manufacturer_data :: "(int \<times> byte list) list"
  service_data :: "(string \<times> byte list) list"
  service_uuids :: "string list"
  tx_power :: "int option"

text \<open>\<^verbatim>\<open>d[k] = v\<close> on a dict: an existing key keeps its place, a new key goes last.\<close>

primrec dict_setitem :: "'k \<Rightarrow> 'v \<Rightarrow> ('k \<times> 'v) list \<Rightarrow> ('k \<times> 'v) list" where
  "dict_setitem k v [] = [(k, v)]"
| "dict_setitem k v (p # ps) = (if fst p = k then (k, v) # ps else p # dict_setitem k v ps)"

section \<open>MessageBuffer (lines 191-271)\<close>

text \<open>
  The attribute \<^verbatim>\<open>buffer\<close> is declared \<^verbatim>\<open>Union[Dict[str, BLEMessage], List[BLEMessage]]\<close>:
  a dict keyed by device address in throttle mode, a list otherwise.
\<close>

datatype buffer_store = DictBuffer "(string \<times> BLEMessage) list" | ListBuffer "BLEMessage list"

record MessageBuffer =
  publish_interval_sec :: real
  max_buffer_size :: int
  throttle_control :: bool
  buffer :: buffer_store
  last_flush_time :: real

text \<open>\<^verbatim>\<open>len(self.buffer)\<close>, for either container.\<close>

fun len_store :: "buffer_store \<Rightarrow> nat" where
  "len_store (DictBuffer d) = length d"
| "len_store (ListBuffer l) = length l"

text \<open>The mode test \<^verbatim>\<open>self.throttle_control and self.publish_interval_sec > 0\<close>.\<close>

definition throttle_mode :: "MessageBuffer \<Rightarrow> bool" where
  "throttle_mode b = (throttle_control b \<and> publish_interval_sec b > 0)"

text \<open>\<^verbatim>\<open>__init__\<close>; \<open>now\<close> is the reading of \<^verbatim>\<open>time.time()\<close>.\<close>

definition MessageBuffer_init :: "real \<Rightarrow> int \<Rightarrow> bool \<Rightarrow> real \<Rightarrow> MessageBuffer" where
  "MessageBuffer_init interval max_size throttle now =
     \<lparr>publish_interval_sec = interval,
      max_buffer_size = max_size,
      throttle_control = throttle,
      buffer = (if throttle \<and> interval > 0 then DictBuffer [] else ListBuffer []),
      last_flush_time = now\<rparr>"

text \<open>
  \<^verbatim>\<open>add_message\<close>. Item assignment with a string key on a list raises TypeError, and a
  dict has no \<^verbatim>\<open>append\<close> (AttributeError); neither happens on a buffer built by
  \<^verbatim>\<open>__init__\<close> (lemma \<open>add_message_inv\<close> below).
\<close>

definition add_message :: "BLEMessage \<Rightarrow> MessageBuffer \<Rightarrow> py_error + MessageBuffer" where
  "add_message message b =
     (if throttle_control b \<and> publish_interval_sec b > 0 then
        (case buffer b of
           DictBuffer d \<Rightarrow> Inr (b\<lparr>buffer := DictBuffer (dict_setitem (device_address message) message d)\<rparr>)
         | ListBuffer l \<Rightarrow> Inl TypeError)
      else
        (case buffer b of
           ListBuffer l \<Rightarrow> Inr (b\<lparr>buffer := ListBuffer (l @ [message])\<rparr>)
         | DictBuffer d \<Rightarrow> Inl AttributeError))"

text \<open>\<^verbatim>\<open>should_flush\<close>; \<open>now\<close> is the reading of \<^verbatim>\<open>time.time()\<close>.\<close>

definition should_flush :: "real \<Rightarrow> MessageBuffer \<Rightarrow> bool" where
  "should_flush now b =
     (if publish_interval_sec b = 0 then len_store (buffer b) > 0
      else
        let buffer_size = len_store (buffer b) in
        if int buffer_size \<ge> max_buffer_size b then True
        else if now - last_flush_time b \<ge> publish_interval_sec b then buffer_size > 0
        else False)"

text \<open>
  \<^verbatim>\<open>get_messages\<close>. In throttle mode the result is \<^verbatim>\<open>list(self.buffer.values())\<close> (a list has
  no \<^verbatim>\<open>values\<close>: AttributeError); otherwise it is \<^verbatim>\<open>self.buffer.copy()\<close>, whatever the
  container is. The result is returned with the updated buffer.
\<close>

definition get_messages :: "real \<Rightarrow> MessageBuffer \<Rightarrow> py_error + (buffer_store \<times> MessageBuffer)" where
  "get_messages now b =
     (if throttle_control b \<and> publish_interval_sec b > 0 then
        (case buffer b of
           DictBuffer d \<Rightarrow>
             Inr (ListBuffer (map snd d), b\<lparr>buffer := DictBuffer [], last_flush_time := now\<rparr>)
         | ListBuffer l \<Rightarrow> Inl AttributeError)
      else
        Inr (buffer b, b\<lparr>buffer := ListBuffer [], last_flush_time := now\<rparr>))"

text \<open>\<^verbatim>\<open>size\<close>.\<close>

definition size_buffer :: "MessageBuffer \<Rightarrow> nat" where
  "size_buffer b = len_store (buffer b)"

text \<open>
  A run of \<^verbatim>\<open>add_message\<close> calls, in order, as the detection callback makes them; the
  first exception ends the run.
\<close>

fun add_messages :: "BLEMessage list \<Rightarrow> MessageBuffer \<Rightarrow> py_error + MessageBuffer" where
  "add_messages [] b = Inr b"
| "add_messages (m # ms) b =
     (case add_message m b of Inl e \<Rightarrow> Inl e | Inr b' \<Rightarrow> add_messages ms b')"

text \<open>
  The class invariant that \<^verbatim>\<open>__init__\<close> establishes and every method keeps: the container
  matches the mode, and in throttle mode each key is the address of its message, once.
\<close>

definition buffer_inv :: "MessageBuffer \<Rightarrow> bool" where
  "buffer_inv b =
     (case buffer b of
        DictBuffer d \<Rightarrow>
          throttle_mode b \<and> distinct (map fst d) \<and> list_all (\<lambda>(k, m). k = device_address m) d
      | ListBuffer l \<Rightarrow> \<not> throttle_mode b)"


section \<open>Library functions the encoder calls\<close>

text \<open>The code point of a character, \<^verbatim>\<open>ord(c)\<close>.\<close>

definition ord :: "char \<Rightarrow> nat" where
  "ord c = of_char c"

text \<open>\<^verbatim>\<open>str.upper\<close>, on the ASCII letters.\<close>

definition upper_char :: "char \<Rightarrow> char" where
  "upper_char c =
     (if 97 \<le> ord c \<and> ord c \<le> 122 then ''ABCDEFGHIJKLMNOPQRSTUVWXYZ'' ! (ord c - 97) else c)"

definition str_upper :: "string \<Rightarrow> string" where
  "str_upper s = map upper_char s"

text \<open>\<^verbatim>\<open>s.replace(c, '')\<close> for a one-character \<open>c\<close>: every occurrence is removed.\<close>

definition str_remove :: "char \<Rightarrow> string \<Rightarrow> string" where
  "str_remove c s = filter (\<lambda>x. x \<noteq> c) s"

text \<open>
  \<^verbatim>\<open>bytes.fromhex\<close> (CPython's \<^verbatim>\<open>_PyBytes_FromHex\<close>): ASCII whitespace is skipped before each
  pair of hexadecimal digits; anything else raises ValueError.
\<close>

definition hex_digit_value :: "char \<Rightarrow> nat option" where
  "hex_digit_value c =
     (if 48 \<le> ord c \<and> ord c \<le> 57 then Some (ord c - 48)
      else if 97 \<le> ord c \<and> ord c \<le> 102 then Some (ord c - 87)
      else if 65 \<le> ord c \<and> ord c \<le> 70 then Some (ord c - 55)
      else None)"

definition is_space :: "char \<Rightarrow> bool" where
  "is_space c = (ord c = 32 \<or> (9 \<le> ord c \<and> ord c \<le> 13))"

fun bytes_fromhex :: "string \<Rightarrow> py_error + byte list" where
  "bytes_fromhex [] = Inr []"
| "bytes_fromhex [c] = (if is_space c then Inr [] else Inl ValueError)"
| "bytes_fromhex (c # d # cs) =
     (if is_space c then bytes_fromhex (d # cs)
      else
        (case (hex_digit_value c, hex_digit_value d) of
           (Some hi, Some lo) \<Rightarrow>
             (case bytes_fromhex cs of
                Inl e \<Rightarrow> Inl e
              | Inr bs \<Rightarrow> Inr (of_nat (16 * hi + lo) # bs))
         | _ \<Rightarrow> Inl ValueError))"

text \<open>\<^verbatim>\<open>bytes.hex\<close>: two lower-case digits for each byte.\<close>

definition hex_digit :: "nat \<Rightarrow> char" where
  "hex_digit n = ''0123456789abcdef'' ! n"

definition bytes_hex :: "byte list \<Rightarrow> string" where
  "bytes_hex bs = concat (map (\<lambda>b. [hex_digit (unat b div 16), hex_digit (unat b mod 16)]) bs)"

text \<open>\<^verbatim>\<open>str(n)\<close> of an int, which is also how an f-string and \<^verbatim>\<open>json.dumps\<close> print it.\<close>

function str_nat :: "nat \<Rightarrow> string" where
  "str_nat n =
     (if n < 10 then [''0123456789'' ! n] else str_nat (n div 10) @ [''0123456789'' ! (n mod 10)])"
  by pat_completeness auto
termination
  by (relation "measure id") auto

declare str_nat.simps [simp del]

definition str_int :: "int \<Rightarrow> string" where
  "str_int i = (if i < 0 then CHR ''-'' # str_nat (nat (- i)) else str_nat (nat i))"

text \<open>
  \<^verbatim>\<open>f"{ms / 1000.0:.3f}"\<close> for an int \<open>ms\<close>. Python divides in double precision and prints the
  double rounded to three decimals. Below \<open>2 ^ 52\<close> in magnitude the double is within
  \<open>2 ^ -11 < 0.0005\<close> of the exact quotient, so the digits printed are those of the exact
  quotient: the model prints them from the integer. Theorems that use it carry the
  bound; beyond it the rounding of the double shows and this is not modelled.
\<close>

definition pad3 :: "nat \<Rightarrow> string" where
  "pad3 n = [''0123456789'' ! (n div 100 mod 10), ''0123456789'' ! (n div 10 mod 10),
             ''0123456789'' ! (n mod 10)]"

definition format_ms_3f :: "int \<Rightarrow> string" where
  "format_ms_3f ms =
     (if ms < 0 then ''-'' else '''')
       @ str_nat (nat \<bar>ms\<bar> div 1000) @ ''.'' @ pad3 (nat \<bar>ms\<bar> mod 1000)"

text \<open>
  \<^verbatim>\<open>json.dumps(obj, separators=(',', ':'))\<close> on the values the gateway serialises, with the
  default \<^verbatim>\<open>ensure_ascii=True\<close>: in a string, the quote and the backslash are escaped, a
  character from space to tilde stands for itself, and any other is \<^verbatim>\<open>\n\<close>, \<^verbatim>\<open>\r\<close>, \<^verbatim>\<open>\t\<close>,
  \<^verbatim>\<open>\b\<close>, \<^verbatim>\<open>\f\<close> or \<^verbatim>\<open>\u00xx\<close>.
\<close>

datatype json = JNull | JInt int | JStr string | JList "json list" | JDict "(string \<times> json) list"

definition json_escape :: "char \<Rightarrow> string" where
  "json_escape c =
     (if ord c = 34 then [CHR 0x5C, CHR 0x22]
      else if ord c = 92 then [CHR 0x5C, CHR 0x5C]
      else if 32 \<le> ord c \<and> ord c \<le> 126 then [c]
      else if ord c = 10 then [CHR 0x5C, CHR ''n'']
      else if ord c = 13 then [CHR 0x5C, CHR ''r'']
      else if ord c = 9 then [CHR 0x5C, CHR ''t'']
      else if ord c = 8 then [CHR 0x5C, CHR ''b'']
      else if ord c = 12 then [CHR 0x5C, CHR ''f'']
      else [CHR 0x5C, CHR ''u'', CHR ''0'', CHR ''0'',
            hex_digit (ord c div 16), hex_digit (ord c mod 16)])"

definition json_string :: "string \<Rightarrow> string" where
  "json_string s = [CHR 0x22] @ concat (map json_escape s) @ [CHR 0x22]"

text \<open>\<^verbatim>\<open>sep.join(parts)\<close>.\<close>

fun str_join :: "string \<Rightarrow> string list \<Rightarrow> string" where
  "str_join sep [] = []"
| "str_join sep [x] = x"
| "str_join sep (x # y # ys) = x @ sep @ str_join sep (y # ys)"

primrec json_dumps :: "json \<Rightarrow> string" where
  "json_dumps JNull = ''null''"
| "json_dumps (JInt i) = str_int i"
| "json_dumps (JStr s) = json_string s"
| "json_dumps (JList xs) = ''['' @ str_join '','' (map json_dumps xs) @ '']''"
| "json_dumps (JDict kvs) =
     ''{'' @ str_join '','' (map (\<lambda>(k, v). json_string k @ '':'' @ v)
                                (map (map_prod id json_dumps) kvs)) @ ''}''"

section \<open>BLEMessage: the encoders (lines 102-188)\<close>

definition BLE_UUID_TYPE_INCOMPLETE_128 :: int where
  "BLE_UUID_TYPE_INCOMPLETE_128 = 0x06"

definition BLE_TYPE_MANUFACTURER_DATA :: int where
  "BLE_TYPE_MANUFACTURER_DATA = 0xFF"

definition BLE_TYPE_SERVICE_DATA_16BIT :: int where
  "BLE_TYPE_SERVICE_DATA_16BIT = 0x16"

text \<open>\<^verbatim>\<open>bytearray.append(v)\<close>: ValueError unless \<open>0 \<le> v < 256\<close>.\<close>

definition bytearray_append :: "byte list \<Rightarrow> int \<Rightarrow> py_error + byte list" where
  "bytearray_append packet v =
     (if 0 \<le> v \<and> v < 256 then Inr (packet @ [word_of_int v]) else Inl ValueError)"

text \<open>Sequencing: an exception ends the computation.\<close>

definition and_then :: "'e + 'a \<Rightarrow> ('a \<Rightarrow> 'e + 'b) \<Rightarrow> 'e + 'b" where
  "and_then r f = (case r of Inl e \<Rightarrow> Inl e | Inr x \<Rightarrow> f x)"

text \<open>A \<^verbatim>\<open>for\<close> loop whose body updates the packet and may raise.\<close>

fun for_each :: "('a \<Rightarrow> byte list \<Rightarrow> py_error + byte list) \<Rightarrow> 'a list \<Rightarrow> byte list
    \<Rightarrow> py_error + byte list" where
  "for_each body [] packet = Inr packet"
| "for_each body (x # xs) packet =
     (case body x packet of Inl e \<Rightarrow> Inl e | Inr packet' \<Rightarrow> for_each body xs packet')"

text \<open>The bodies of the three loops of \<^verbatim>\<open>_reconstruct_advertising_data\<close>.\<close>

definition service_uuid_body :: "string \<Rightarrow> byte list \<Rightarrow> py_error + byte list" where
  "service_uuid_body uuid_str packet =
     (let uuid_hex = str_remove (CHR ''-'') uuid_str in
      and_then (bytes_fromhex uuid_hex) (\<lambda>uuid_bytes.
        let uuid_bytes_le = rev uuid_bytes in
        and_then (bytearray_append packet 17) (\<lambda>packet.
        and_then (bytearray_append packet BLE_UUID_TYPE_INCOMPLETE_128) (\<lambda>packet.
        Inr (packet @ uuid_bytes_le)))))"

definition manufacturer_body :: "int \<times> byte list \<Rightarrow> byte list \<Rightarrow> py_error + byte list" where
  "manufacturer_body item packet =
     (case item of (company_id, data) \<Rightarrow>
        let record_length = 1 + 2 + int (length data) in
        and_then (bytearray_append packet record_length) (\<lambda>packet.
        and_then (bytearray_append packet BLE_TYPE_MANUFACTURER_DATA) (\<lambda>packet.
        and_then (bytearray_append packet (company_id AND 0xFF)) (\<lambda>packet.
        and_then (bytearray_append packet (drop_bit 8 company_id AND 0xFF)) (\<lambda>packet.
        Inr (packet @ data))))))"

definition service_data_body :: "string \<times> byte list \<Rightarrow> byte list \<Rightarrow> py_error + byte list" where
  "service_data_body item packet =
     (case item of (uuid_str, data) \<Rightarrow>
        let uuid_hex = str_remove (CHR ''-'') uuid_str in
        and_then (bytes_fromhex uuid_hex) (\<lambda>uuid_bytes.
          let record_length = 1 + int (length uuid_bytes) + int (length data) in
          and_then (bytearray_append packet record_length) (\<lambda>packet.
          and_then (bytearray_append packet BLE_TYPE_SERVICE_DATA_16BIT) (\<lambda>packet.
          Inr (packet @ rev uuid_bytes @ data)))))"

text \<open>\<^verbatim>\<open>_reconstruct_advertising_data\<close> (lines 102-146).\<close>

definition reconstruct_advertising_data :: "BLEMessage \<Rightarrow> py_error + byte list" where
  "reconstruct_advertising_data m =
     and_then
       (if service_uuids m \<noteq> [] then for_each service_uuid_body (service_uuids m) []
        else Inr [])
       (\<lambda>packet.
     and_then (for_each manufacturer_body (manufacturer_data m) packet) (\<lambda>packet.
     for_each service_data_body (service_data m) packet))"

text \<open>\<^verbatim>\<open>to_gprp_format\<close> (lines 148-176).\<close>

definition to_gprp_format :: "BLEMessage \<Rightarrow> string \<Rightarrow> string \<Rightarrow> py_error + string" where
  "to_gprp_format m gateway_mac topic =
     and_then (reconstruct_advertising_data m) (\<lambda>advertising_data.
       let advertising_hex = str_upper (bytes_hex advertising_data);
           timestamp_sec = format_ms_3f (timestamp_ms m);
           device_mac = str_upper (str_remove (CHR '':'') (device_address m));
           gprp_line = ''$GPRP,'' @ gateway_mac @ '','' @ device_mac @ '','' @ str_int (rssi m)
             @ '','' @ advertising_hex @ '','' @ timestamp_sec
       in Inr (json_dumps (JDict [(''data'', JList [JStr gprp_line]),
                                  (''mqtt_topic'', JStr topic)])))"

text \<open>
  \<^verbatim>\<open>to_json\<close> (lines 178-188). \<^verbatim>\<open>asdict\<close> lists the fields in declaration order; the two dict
  comprehensions insert their items one by one.
\<close>

definition dict_comprehension :: "('k \<times> 'v) list \<Rightarrow> ('k \<times> 'v) list" where
  "dict_comprehension items = fold (\<lambda>(k, v). dict_setitem k v) items []"

definition json_optional :: "('a \<Rightarrow> json) \<Rightarrow> 'a option \<Rightarrow> json" where
  "json_optional f x = (case x of None \<Rightarrow> JNull | Some y \<Rightarrow> f y)"

definition to_json :: "BLEMessage \<Rightarrow> string" where
  "to_json m =
     json_dumps (JDict
       [(''timestamp_ms'', JInt (timestamp_ms m)),
        (''device_address'', JStr (device_address m)),
        (''device_name'', json_optional JStr (device_name m)),
        (''rssi'', JInt (rssi m)),
        (''manufacturer_data'',
           JDict (dict_comprehension
             (map (\<lambda>(k, v). (str_int k, JStr (bytes_hex v))) (manufacturer_data m)))),
        (''service_data'',
           JDict (dict_comprehension
             (map (\<lambda>(k, v). (k, JStr (bytes_hex v))) (service_data m)))),
        (''service_uuids'', JList (map JStr (service_uuids m))),
        (''tx_power'', json_optional JInt (tx_power m))])"

section \<open>BluetoothGateway: the final flush of run (lines 903-912)\<close>

text \<open>
  The \<^verbatim>\<open>finally\<close> block of \<^verbatim>\<open>run\<close> drains the buffer without asking \<^verbatim>\<open>should_flush\<close>, renders
  each message with \<^verbatim>\<open>to_json\<close> and hands it to \<^verbatim>\<open>publisher.publish\<close>, whose result it
  ignores. The publisher is modelled by the list of payloads handed to it, oldest first.
  An exception inside the loop body is caught and logged, and the loop goes on: were the
  drained value a dict, the loop would run over its keys, strings without a \<^verbatim>\<open>to_json\<close>,
  and publish nothing.
\<close>

definition publish_remaining :: "buffer_store \<Rightarrow> string list \<Rightarrow> string list" where
  "publish_remaining messages sent =
     (case messages of
        ListBuffer l \<Rightarrow> sent @ map to_json l
      | DictBuffer d \<Rightarrow> sent)"

definition run_finally :: "real \<Rightarrow> MessageBuffer \<Rightarrow> string list
    \<Rightarrow> py_error + (string list \<times> MessageBuffer)" where
  "run_finally now b sent =
     (case get_messages now b of
        Inl e \<Rightarrow> Inl e
      | Inr (messages, b') \<Rightarrow> Inr (publish_remaining messages sent, b'))"

section \<open>PayloadFilter (lines 274-329)\<close>

text \<open>
  The two arguments of \<^verbatim>\<open>should_accept\<close> are bleak's \<^verbatim>\<open>BLEDevice\<close> and \<^verbatim>\<open>AdvertisementData\<close>;
  the records hold the attributes the gateway reads. A whitelist is an \<^verbatim>\<open>Optional[Set]\<close>.
\<close>

record BLEDevice =
  address :: string
  name :: "string option"

record AdvertisementData =
  adv_rssi :: int
  adv_manufacturer_data :: "(int \<times> byte list) list"
  adv_service_data :: "(string \<times> byte list) list"
  adv_service_uuids :: "string list"
  adv_tx_power :: "int option"

record PayloadFilter =
  mac_whitelist :: "string set option"
  name_whitelist :: "string set option"
  manufacturer_id_whitelist :: "int set option"
  service_uuid_whitelist :: "string set option"

text \<open>Truth value of a whitelist: \<^verbatim>\<open>None\<close> and the empty set are false.\<close>

definition truthy_set :: "'a set option \<Rightarrow> bool" where
  "truthy_set w = (case w of None \<Rightarrow> False | Some S \<Rightarrow> S \<noteq> {})"

text \<open>\<^verbatim>\<open>x in w\<close>, evaluated only where \<open>w\<close> is a set.\<close>

definition in_whitelist :: "'a \<Rightarrow> 'a set option \<Rightarrow> bool" where
  "in_whitelist x w = (case w of None \<Rightarrow> False | Some S \<Rightarrow> x \<in> S)"

definition should_accept :: "PayloadFilter \<Rightarrow> BLEDevice \<Rightarrow> AdvertisementData \<Rightarrow> bool" where
  "should_accept f device advertisement =
     (if \<not> (truthy_set (mac_whitelist f) \<or> truthy_set (name_whitelist f)
             \<or> truthy_set (manufacturer_id_whitelist f) \<or> truthy_set (service_uuid_whitelist f))
      then True
      else if truthy_set (mac_whitelist f)
           \<and> in_whitelist (str_upper (address device)) (mac_whitelist f)
      then True
      else if truthy_set (name_whitelist f)
           \<and> (case name device of None \<Rightarrow> False
               | Some n \<Rightarrow> n \<noteq> [] \<and> in_whitelist n (name_whitelist f))
      then True
      else if truthy_set (manufacturer_id_whitelist f) \<and> adv_manufacturer_data advertisement \<noteq> []
           \<and> list_ex (\<lambda>mid. in_whitelist mid (manufacturer_id_whitelist f))
                (map fst (adv_manufacturer_data advertisement))
      then True
      else if truthy_set (service_uuid_whitelist f) \<and> adv_service_uuids advertisement \<noteq> []
           \<and> list_ex (\<lambda>uuid. in_whitelist uuid (service_uuid_whitelist f))
                (adv_service_uuids advertisement)
      then True
      else False)"

section \<open>load_config (lines 921-975)\<close>

text \<open>
  The value \<^verbatim>\<open>json.load\<close> returns: \<^verbatim>\<open>None\<close>, a bool, an int, a float (modelled as a real: the
  non-finite floats are left out), a str, a list or a dict. \<open>load_config\<close> below is the
  function from the parsed mapping on; reading and parsing the file are not modelled.
\<close>

datatype pyval =
  PNone | PBool bool | PInt int | PFloat real | PStr string | PList "pyval list"
  | PDict "(string \<times> pyval) list"

text \<open>
  \<^verbatim>\<open>isinstance(v, (int, float))\<close>, \<^verbatim>\<open>isinstance(v, int)\<close>, \<^verbatim>\<open>isinstance(v, bool)\<close> and
  \<^verbatim>\<open>isinstance(v, str)\<close>: \<^verbatim>\<open>bool\<close> is a subclass of \<^verbatim>\<open>int\<close>.
\<close>

fun is_int_or_float :: "pyval \<Rightarrow> bool" where
  "is_int_or_float (PBool b) = True"
| "is_int_or_float (PInt i) = True"
| "is_int_or_float (PFloat r) = True"
| "is_int_or_float v = False"

fun is_int :: "pyval \<Rightarrow> bool" where
  "is_int (PBool b) = True"
| "is_int (PInt i) = True"
| "is_int v = False"

fun is_bool :: "pyval \<Rightarrow> bool" where
  "is_bool (PBool b) = True"
| "is_bool v = False"

fun is_str :: "pyval \<Rightarrow> bool" where
  "is_str (PStr s) = True"
| "is_str v = False"

text \<open>The number a numeric value compares as: \<^verbatim>\<open>True\<close> is 1 and \<^verbatim>\<open>False\<close> is 0.\<close>

fun number_of :: "pyval \<Rightarrow> real" where
  "number_of (PBool b) = (if b then 1 else 0)"
| "number_of (PInt i) = of_int i"
| "number_of (PFloat r) = r"
| "number_of v = 0"

text \<open>Truth value, as \<^verbatim>\<open>not v\<close> tests it.\<close>

fun truthy :: "pyval \<Rightarrow> bool" where
  "truthy PNone = False"
| "truthy (PBool b) = b"
| "truthy (PInt i) = (i \<noteq> 0)"
| "truthy (PFloat r) = (r \<noteq> 0)"
| "truthy (PStr s) = (s \<noteq> [])"
| "truthy (PList l) = (l \<noteq> [])"
| "truthy (PDict d) = (d \<noteq> [])"

definition DEFAULT_TOPIC :: string where
  "DEFAULT_TOPIC = ''ble/gateway/data''"

definition DEFAULT_CLIENT_ID :: string where
  "DEFAULT_CLIENT_ID = ''ble-gateway-001''"

definition MAX_CLIENT_ID_LENGTH :: nat where
  "MAX_CLIENT_ID_LENGTH = 128"

text \<open>\<^verbatim>\<open>sub in s\<close> for two strings.\<close>

fun str_contains :: "string \<Rightarrow> string \<Rightarrow> bool" where
  "str_contains sub [] = (sub = [])"
| "str_contains sub (c # cs) = (take (length sub) (c # cs) = sub \<or> str_contains sub cs)"

text \<open>
  The checks on the \<^verbatim>\<open>mqtt\<close> section. \<^verbatim>\<open>'broker' not in mqtt_config\<close> is a key test on a dict,
  a substring test on a str, a membership test on a list and a TypeError on a number;
  only a dict has the \<^verbatim>\<open>get\<close> that follows (AttributeError otherwise).
\<close>

definition validate_field :: "(string \<times> pyval) list \<Rightarrow> string \<Rightarrow> string \<Rightarrow> py_error + string" where
  "validate_field mqtt_config key default_value =
     (case map_of mqtt_config key of
        None \<Rightarrow> if default_value = [] then Inl ValueError else Inr default_value
      | Some v \<Rightarrow>
          (case v of PStr s \<Rightarrow> if s = [] then Inl ValueError else Inr s
           | _ \<Rightarrow> Inl ValueError))"

definition validate_mqtt :: "pyval option \<Rightarrow> py_error + unit" where
  "validate_mqtt mqtt_section =
     (case mqtt_section of
        None \<Rightarrow> Inl ValueError
      | Some mqtt_config \<Rightarrow>
          if \<not> truthy mqtt_config then Inl ValueError
          else
            (case mqtt_config of
               PDict d \<Rightarrow>
                 if map_of d ''broker'' = None then Inl ValueError
                 else and_then (validate_field d ''topic'' DEFAULT_TOPIC) (\<lambda>topic.
                      and_then (validate_field d ''client_id'' DEFAULT_CLIENT_ID) (\<lambda>client_id.
                        if length client_id > MAX_CLIENT_ID_LENGTH then Inl ValueError
                        else Inr ()))
             | PStr s \<Rightarrow> if \<not> str_contains ''broker'' s then Inl ValueError else Inl AttributeError
             | PList l \<Rightarrow> if PStr ''broker'' \<notin> set l then Inl ValueError else Inl AttributeError
             | _ \<Rightarrow> Inl TypeError))"

text \<open>\<^verbatim>\<open>load_config\<close>, from the parsed mapping on: the three policy checks, then the section.\<close>

definition load_config :: "(string \<times> pyval) list \<Rightarrow> py_error + (string \<times> pyval) list" where
  "load_config config =
     (if (case map_of config ''publish_interval_sec'' of
            None \<Rightarrow> False
          | Some interval \<Rightarrow> \<not> is_int_or_float interval \<or> number_of interval < 0)
      then Inl ValueError
      else if (case map_of config ''max_buffer_size'' of
                 None \<Rightarrow> False
               | Some sz \<Rightarrow> \<not> is_int sz \<or> number_of sz < 1)
      then Inl ValueError
      else if (case map_of config ''throttle_control'' of
                 None \<Rightarrow> False
               | Some throttle \<Rightarrow> \<not> is_bool throttle)
      then Inl ValueError
      else and_then (validate_mqtt (map_of config ''mqtt'')) (\<lambda>_. Inr config))"

section \<open>The advertising-data format as the specification words it\<close>

text \<open>
  The definitions of this section follow the specification's description of the blob, not
  the code; the theorems compare them with \<open>reconstruct_advertising_data\<close>.
\<close>

text \<open>A string of hexadecimal digits, and the bytes its pairs of digits denote.\<close>

definition is_hex :: "string \<Rightarrow> bool" where
  "is_hex s = list_all (\<lambda>c. hex_digit_value c \<noteq> None) s"

fun hex_pairs :: "string \<Rightarrow> byte list" where
  "hex_pairs (c # d # cs) =
     of_nat (16 * the (hex_digit_value c) + the (hex_digit_value d)) # hex_pairs cs"
| "hex_pairs cs = []"

text \<open>The raw bytes of a UUID string: its digits with the hyphens left out.\<close>

definition uuid_digits :: "string \<Rightarrow> string" where
  "uuid_digits u = filter (\<lambda>c. c \<noteq> CHR ''-'') u"

definition uuid_bytes :: "string \<Rightarrow> byte list" where
  "uuid_bytes u = hex_pairs (uuid_digits u)"

text \<open>A service id that denotes a 128-bit UUID: 32 hexadecimal digits once the hyphens are removed.\<close>

definition is_uuid128 :: "string \<Rightarrow> bool" where
  "is_uuid128 u = (length (uuid_digits u) = 32 \<and> is_hex (uuid_digits u))"

text \<open>
  The three kinds of record, each \<open>[length, type, payload...]\<close>: a service id (type 0x06,
  the 16 bytes reversed), a vendor entry (type 0xFF, the id in two bytes low byte first,
  then the data) and a service-data entry (type 0x16, the UUID's bytes reversed, then the
  data). The length byte counts the type byte and the payload.
\<close>

definition length_byte :: "nat \<Rightarrow> byte" where
  "length_byte n = of_nat n"

definition service_id_record :: "string \<Rightarrow> byte list" where
  "service_id_record u = [17, 0x06] @ rev (uuid_bytes u)"

definition vendor_record :: "int \<times> byte list \<Rightarrow> byte list" where
  "vendor_record item =
     (case item of (vendor_id, data) \<Rightarrow>
        [length_byte (3 + length data), 0xFF,
         word_of_int (vendor_id mod 256), word_of_int (vendor_id div 256 mod 256)] @ data)"

definition service_data_record :: "string \<times> byte list \<Rightarrow> byte list" where
  "service_data_record item =
     (case item of (u, data) \<Rightarrow>
        [length_byte (1 + length (uuid_bytes u) + length data), 0x16] @ rev (uuid_bytes u) @ data)"

text \<open>
  What a length byte can frame: a vendor entry of at most 252 data bytes, and a
  service-data entry whose key is an even number of hexadecimal digits (hyphens apart)
  and whose UUID bytes and data together are at most 254 bytes.
\<close>

definition vendor_fits :: "int \<times> byte list \<Rightarrow> bool" where
  "vendor_fits item = (length (snd item) \<le> 252)"

definition service_data_fits :: "string \<times> byte list \<Rightarrow> bool" where
  "service_data_fits item =
     (is_hex (uuid_digits (fst item)) \<and> even (length (uuid_digits (fst item)))
      \<and> length (uuid_digits (fst item)) div 2 + length (snd item) \<le> 254)"

text \<open>
  Reading a blob back by its length framing: each record is a length byte and that many
  following bytes (the type byte and the payload, so at least one); \<open>None\<close> when the
  framing does not fit the blob.
\<close>

function split_records :: "byte list \<Rightarrow> byte list list option" where
  "split_records [] = Some []"
| "split_records (l # rest) =
     (if unat l = 0 \<or> length rest < unat l then None
      else map_option ((#) (l # take (unat l) rest)) (split_records (drop (unat l) rest)))"
  by pat_completeness auto
termination
  by (relation "measure length") auto

text \<open>The type byte of a record, the vendor id of a vendor record and the payload.\<close>

definition record_type :: "byte list \<Rightarrow> byte" where
  "record_type r = r ! 1"

definition record_payload :: "byte list \<Rightarrow> byte list" where
  "record_payload r = drop 2 r"

definition record_vendor_id :: "byte list \<Rightarrow> int" where
  "record_vendor_id r = uint (r ! 2) + 256 * uint (r ! 3)"

text \<open>Upper-case hexadecimal, two digits for each byte.\<close>

definition hex_upper :: "byte list \<Rightarrow> string" where
  "hex_upper bs =
     concat (map (\<lambda>b. [''0123456789ABCDEF'' ! (unat b div 16),
                        ''0123456789ABCDEF'' ! (unat b mod 16)]) bs)"

text \<open>A record whose length byte counts its type byte and payload.\<close>

definition well_framed :: "byte list \<Rightarrow> bool" where
  "well_framed r = (case r of [] \<Rightarrow> False | l # body \<Rightarrow> body \<noteq> [] \<and> unat l = length body)"

text \<open>The records of an event in the order the specification gives, and their concatenation.\<close>

definition advertising_records :: "BLEMessage \<Rightarrow> byte list list" where
  "advertising_records m =
     map service_id_record (service_uuids m)
     @ map vendor_record (manufacturer_data m)
     @ map service_data_record (service_data m)"

definition advertising_blob :: "BLEMessage \<Rightarrow> byte list" where
  "advertising_blob m = concat (advertising_records m)"

section \<open>The two wire formats as the specification words them\<close>

text \<open>The device id of the envelope: the address without its \<open>:\<close> separators, in upper case.\<close>

definition device_id :: "string \<Rightarrow> string" where
  "device_id addr = map upper_char (filter (\<lambda>c. c \<noteq> CHR '':'') addr)"

text \<open>The line of the CSV envelope, for a gateway id, an event and its blob.\<close>

definition gprp_line :: "string \<Rightarrow> BLEMessage \<Rightarrow> byte list \<Rightarrow> string" where
  "gprp_line gateway_id m blob =
     ''$GPRP,'' @ gateway_id @ '','' @ device_id (device_address m) @ '','' @ str_int (rssi m)
       @ '','' @ hex_upper blob @ '','' @ format_ms_3f (timestamp_ms m)"

text \<open>The number a string of decimal digits denotes.\<close>

definition digits_value :: "string \<Rightarrow> nat" where
  "digits_value s = foldl (\<lambda>a c. 10 * a + (ord c - 48)) 0 s"

text \<open>A character that \<^verbatim>\<open>json.dumps\<close> writes as it is.\<close>

definition plain_char :: "char \<Rightarrow> bool" where
  "plain_char c = (32 \<le> ord c \<and> ord c \<le> 126 \<and> ord c \<noteq> 34 \<and> ord c \<noteq> 92)"

text \<open>A string between double quotes, with nothing escaped.\<close>

definition quoted :: "string \<Rightarrow> string" where
  "quoted s = [CHR 0x22] @ s @ [CHR 0x22]"

text \<open>The integer a decimal string denotes, with its optional minus sign.\<close>

definition int_value :: "string \<Rightarrow> int" where
  "int_value s =
     (case s of [] \<Rightarrow> 0
      | c # r \<Rightarrow> if c = CHR ''-'' then - int (digits_value r) else int (digits_value s))"

text \<open>The events a buffer holds, in the order a drain returns them.\<close>

definition pending :: "MessageBuffer \<Rightarrow> BLEMessage list" where
  "pending b = (case buffer b of DictBuffer d \<Rightarrow> map snd d | ListBuffer l \<Rightarrow> l)"

section \<open>Sample values\<close>

text \<open>
  Two advertisements of one device and one of another, and three buffers as \<^verbatim>\<open>__init__\<close>
  builds them at clock reading 0: throttled with a 5 second window, unthrottled with the
  same window, and immediate (interval 0).
\<close>

definition sample_message :: "string \<Rightarrow> int \<Rightarrow> int \<Rightarrow> BLEMessage" where
  "sample_message addr ts strength =
     \<lparr>timestamp_ms = ts, device_address = addr, device_name = None, rssi = strength,
      manufacturer_data = [], service_data = [], service_uuids = [], tx_power = None\<rparr>"

definition msg_a1 :: BLEMessage where
  "msg_a1 = sample_message ''AA:BB:CC:DD:EE:FF'' 1700000000000 (- 67)"

definition msg_a2 :: BLEMessage where
  "msg_a2 = sample_message ''AA:BB:CC:DD:EE:FF'' 1700000000500 (- 60)"

definition msg_b :: BLEMessage where
  "msg_b = sample_message ''11:22:33:44:55:66'' 1700000000250 (- 80)"

definition throttled_buffer :: MessageBuffer where
  "throttled_buffer = MessageBuffer_init 5 100 True 0"

definition windowed_buffer :: MessageBuffer where
  "windowed_buffer = MessageBuffer_init 5 2 False 0"

definition immediate_buffer :: MessageBuffer where
  "immediate_buffer = MessageBuffer_init 0 100 True 0"

text \<open>
  An event with one service id, one vendor entry of 4 bytes and one service-data entry of
  2 bytes; one whose vendor entry is a byte too long for its length byte; and one whose
  vendor entries were inserted in descending order of id.
\<close>

definition full_event :: BLEMessage where
  "full_event =
     \<lparr>timestamp_ms = 1700000000042, device_address = ''aa:bb:cc:dd:ee:ff'',
      device_name = Some ''Tag 7'', rssi = - 67,
      manufacturer_data = [(76, [1, 2, 3, 255])],
      service_data = [(''0000180f-0000-1000-8000-00805f9b34fb'', [100, 0])],
      service_uuids = [''0000180f-0000-1000-8000-00805f9b34fb''],
      tx_power = Some (- 4)\<rparr>"

definition oversized_event :: BLEMessage where
  "oversized_event = full_event\<lparr>manufacturer_data := [(76, replicate 253 0)]\<rparr>"

definition unsorted_event :: BLEMessage where
  "unsorted_event =
     full_event\<lparr>manufacturer_data := [(2, [0xAA]), (1, [0xBB])], service_data := [],
                 service_uuids := []\<rparr>"

text \<open>The unthrottled buffer holding one event, two seconds into its five-second window.\<close>

definition pending_buffer :: MessageBuffer where
  "pending_buffer = windowed_buffer\<lparr>buffer := ListBuffer [full_event]\<rparr>"

text \<open>
  A device that reports its address in lower case, an advertisement of vendor 76, a filter
  whose address set holds that address in lower case and one that holds it in upper case,
  and a filter on vendor ids alone.
\<close>

definition lower_device :: BLEDevice where
  "lower_device = \<lparr>address = ''aa:bb:cc:dd:ee:ff'', name = Some ''Tag 7''\<rparr>"

definition vendor_76_advertisement :: AdvertisementData where
  "vendor_76_advertisement =
     \<lparr>adv_rssi = - 67, adv_manufacturer_data = [(76, [1, 2, 3, 255])], adv_service_data = [],
      adv_service_uuids = [''0000180f-0000-1000-8000-00805f9b34fb''], adv_tx_power = None\<rparr>"

definition lower_case_filter :: PayloadFilter where
  "lower_case_filter =
     \<lparr>mac_whitelist = Some {''aa:bb:cc:dd:ee:ff''}, name_whitelist = None,
      manufacturer_id_whitelist = None, service_uuid_whitelist = None\<rparr>"

definition upper_case_filter :: PayloadFilter where
  "upper_case_filter =
     \<lparr>mac_whitelist = Some {''AA:BB:CC:DD:EE:FF''}, name_whitelist = None,
      manufacturer_id_whitelist = None, service_uuid_whitelist = None\<rparr>"

definition vendor_filter :: "int set \<Rightarrow> PayloadFilter" where
  "vendor_filter S =
     \<lparr>mac_whitelist = None, name_whitelist = None,
      manufacturer_id_whitelist = Some S, service_uuid_whitelist = None\<rparr>"

text \<open>A configuration file whose batch size is the JSON value \<^verbatim>\<open>true\<close>.\<close>

definition boolean_size_config :: "(string \<times> pyval) list" where
  "boolean_size_config =
     [(''publish_interval_sec'', PFloat 5), (''max_buffer_size'', PBool True),
      (''throttle_control'', PBool True),
      (''mqtt'', PDict [(''broker'', PStr ''localhost''), (''topic'', PStr ''ble/gateway/data'')])]"

section \<open>MessageBuffer: the invariant\<close>

lemma init_inv: "buffer_inv (MessageBuffer_init interval max_size throttle now)"
  by (simp add: buffer_inv_def MessageBuffer_init_def throttle_mode_def)

lemma init_empty: "size_buffer (MessageBuffer_init interval max_size throttle now) = 0"
  by (simp add: size_buffer_def MessageBuffer_init_def)

lemma dict_setitem_keys:
  "set (map fst (dict_setitem k v d)) = insert k (set (map fst d))"
  by (induction d) auto

lemma dict_setitem_distinct:
  "distinct (map fst d) \<Longrightarrow> distinct (map fst (dict_setitem k v d))"
proof (induction d)
  case Nil
  then show ?case by simp
next
  case (Cons p ps)
  then show ?case
    using dict_setitem_keys [of k v ps] by (auto simp del: set_map)
qed

lemma dict_setitem_all:
  "list_all P d \<Longrightarrow> P (k, v) \<Longrightarrow> list_all P (dict_setitem k v d)"
  by (induction d) auto

lemma add_message_inv:
  assumes "buffer_inv b"
  shows "\<exists>b'. add_message m b = Inr b' \<and> buffer_inv b'
           \<and> throttle_mode b' = throttle_mode b
           \<and> publish_interval_sec b' = publish_interval_sec b
           \<and> max_buffer_size b' = max_buffer_size b
           \<and> last_flush_time b' = last_flush_time b"
proof (cases "buffer b")
  case (DictBuffer d)
  with assms show ?thesis
    by (auto simp: add_message_def buffer_inv_def throttle_mode_def
        intro: dict_setitem_distinct dict_setitem_all)
next
  case (ListBuffer l)
  with assms show ?thesis
    by (auto simp: add_message_def buffer_inv_def throttle_mode_def)
qed

lemma add_messages_inv:
  "buffer_inv b \<Longrightarrow>
     \<exists>b'. add_messages ms b = Inr b' \<and> buffer_inv b'
       \<and> throttle_mode b' = throttle_mode b
       \<and> publish_interval_sec b' = publish_interval_sec b
       \<and> max_buffer_size b' = max_buffer_size b
       \<and> last_flush_time b' = last_flush_time b"
proof (induction ms arbitrary: b)
  case Nil
  then show ?case by simp
next
  case (Cons m ms)
  from add_message_inv [OF Cons.prems, of m] obtain b1 where
    b1: "add_message m b = Inr b1" "buffer_inv b1" "throttle_mode b1 = throttle_mode b"
      "publish_interval_sec b1 = publish_interval_sec b"
      "max_buffer_size b1 = max_buffer_size b" "last_flush_time b1 = last_flush_time b"
    by blast
  from Cons.IH [OF b1(2)] b1 show ?case by auto
qed

text \<open>The contents of the container after a run of adds, in each mode.\<close>

lemma add_messages_list:
  "buffer b = ListBuffer l \<Longrightarrow> \<not> throttle_mode b \<Longrightarrow>
     \<exists>b'. add_messages ms b = Inr b' \<and> buffer b' = ListBuffer (l @ ms)"
proof (induction ms arbitrary: b l)
  case Nil
  then show ?case by simp
next
  case (Cons m ms)
  let ?b1 = "b\<lparr>buffer := ListBuffer (l @ [m])\<rparr>"
  from Cons.prems have step: "add_message m b = Inr ?b1"
    by (simp add: add_message_def throttle_mode_def)
  have "buffer ?b1 = ListBuffer (l @ [m])" and "\<not> throttle_mode ?b1"
    using Cons.prems by (simp_all add: throttle_mode_def)
  from Cons.IH [OF this] step show ?case by simp
qed

lemma add_messages_dict:
  "buffer b = DictBuffer d \<Longrightarrow> throttle_mode b \<Longrightarrow>
     \<exists>b'. add_messages ms b = Inr b'
       \<and> buffer b' = DictBuffer (fold (\<lambda>m. dict_setitem (device_address m) m) ms d)"
proof (induction ms arbitrary: b d)
  case Nil
  then show ?case by simp
next
  case (Cons m ms)
  let ?b1 = "b\<lparr>buffer := DictBuffer (dict_setitem (device_address m) m d)\<rparr>"
  from Cons.prems have step: "add_message m b = Inr ?b1"
    by (simp add: add_message_def throttle_mode_def)
  have "buffer ?b1 = DictBuffer (dict_setitem (device_address m) m d)" and "throttle_mode ?b1"
    using Cons.prems by (simp_all add: throttle_mode_def)
  from Cons.IH [OF this] step show ?case by simp
qed

lemma dict_setitem_length: "length (dict_setitem k v d) \<le> Suc (length d)"
  by (induction d) auto

lemma fold_setitem_length:
  "length (fold (\<lambda>m. dict_setitem (f m) m) ms d) \<le> length d + length ms"
proof (induction ms arbitrary: d)
  case Nil
  then show ?case by simp
next
  case (Cons m ms)
  have "length (fold (\<lambda>m. dict_setitem (f m) m) ms (dict_setitem (f m) m d))
          \<le> length (dict_setitem (f m) m d) + length ms"
    by (rule Cons.IH)
  also have "\<dots> \<le> Suc (length d) + length ms"
    using dict_setitem_length [of "f m" m d] by simp
  finally show ?case by simp
qed

lemma map_of_dict_setitem: "map_of (dict_setitem k v d) = (map_of d)(k \<mapsto> v)"
  by (induction d) (auto simp: fun_eq_iff)

text \<open>Under the invariant, the messages of one address in a dict are what its key maps to.\<close>

lemma dict_values_of_address:
  "distinct (map fst d) \<Longrightarrow> list_all (\<lambda>(k, m). k = device_address m) d \<Longrightarrow>
     filter (\<lambda>m. device_address m = a) (map snd d)
       = (case map_of d a of None \<Rightarrow> [] | Some m \<Rightarrow> [m])"
proof (induction d)
  case Nil
  then show ?case by simp
next
  case (Cons p ps)
  obtain k v where p: "p = (k, v)" by (cases p)
  from Cons.prems p have k: "k = device_address v" and fresh: "k \<notin> fst ` set ps"
    and rest: "distinct (map fst ps)" "list_all (\<lambda>(k, m). k = device_address m) ps"
    by auto
  show ?case
  proof (cases "device_address v = a")
    case True
    with k fresh have "map_of ps a = None"
      by (simp add: map_of_eq_None_iff)
    with Cons.IH [OF rest] True k p show ?thesis by simp
  next
    case False
    with Cons.IH [OF rest] k p show ?thesis by simp
  qed
qed

lemma get_messages_inv:
  assumes "buffer_inv b"
  shows "\<exists>b'. get_messages now b
             = Inr (ListBuffer (case buffer b of DictBuffer d \<Rightarrow> map snd d | ListBuffer l \<Rightarrow> l), b')
           \<and> buffer_inv b' \<and> size_buffer b' = 0 \<and> last_flush_time b' = now
           \<and> throttle_mode b' = throttle_mode b
           \<and> publish_interval_sec b' = publish_interval_sec b
           \<and> max_buffer_size b' = max_buffer_size b"
proof (cases "buffer b")
  case (DictBuffer d)
  with assms show ?thesis
    by (simp add: get_messages_def buffer_inv_def throttle_mode_def size_buffer_def)
next
  case (ListBuffer l)
  with assms show ?thesis
    by (simp add: get_messages_def buffer_inv_def throttle_mode_def size_buffer_def)
qed

lemmas sample_defs =
  sample_message_def msg_a1_def msg_a2_def msg_b_def
  throttled_buffer_def windowed_buffer_def immediate_buffer_def
  MessageBuffer_init_def add_message_def get_messages_def should_flush_def
  size_buffer_def buffer_inv_def throttle_mode_def


section \<open>The encoders: lemmas\<close>

lemma hex_digit_not_space: "hex_digit_value c = Some v \<Longrightarrow> \<not> is_space c"
  by (auto simp: hex_digit_value_def is_space_def split: if_splits)

lemma hex_digit_value_less: "hex_digit_value c = Some v \<Longrightarrow> v < 16"
  by (auto simp: hex_digit_value_def split: if_splits)

lemma bytes_fromhex_hex:
  "is_hex s \<Longrightarrow> even (length s) \<Longrightarrow> bytes_fromhex s = Inr (hex_pairs s)"
proof (induction s rule: hex_pairs.induct)
  case (1 c d cs)
  then obtain hi lo where v: "hex_digit_value c = Some hi" "hex_digit_value d = Some lo"
    by (auto simp: is_hex_def)
  from 1 have "bytes_fromhex cs = Inr (hex_pairs cs)"
    by (simp add: is_hex_def)
  with v hex_digit_not_space [OF v(1)] show ?case by simp
qed simp_all

lemma length_hex_pairs: "length (hex_pairs s) = length s div 2"
  by (induction s rule: hex_pairs.induct) simp_all

lemma bytes_fromhex_error: "bytes_fromhex s = Inl e \<Longrightarrow> e = ValueError"
  by (induction s arbitrary: e rule: bytes_fromhex.induct)
     (auto split: if_splits option.splits sum.splits)

lemma uuid_digits_remove: "str_remove (CHR ''-'') u = uuid_digits u"
  by (simp add: str_remove_def uuid_digits_def)

lemma service_uuid_body_ok:
  "is_hex (uuid_digits u) \<Longrightarrow> even (length (uuid_digits u)) \<Longrightarrow>
     service_uuid_body u p = Inr (p @ [17, 0x06] @ rev (uuid_bytes u))"
  by (simp add: service_uuid_body_def uuid_digits_remove bytes_fromhex_hex and_then_def
      bytearray_append_def BLE_UUID_TYPE_INCOMPLETE_128_def uuid_bytes_def)

lemma service_uuid_body_uuid128:
  "is_uuid128 u \<Longrightarrow> service_uuid_body u p = Inr (p @ service_id_record u)"
  by (simp add: is_uuid128_def service_uuid_body_ok service_id_record_def)

lemma and_255_mod: "(k::int) AND 255 = k mod 256"
proof -
  have "k AND mask 8 = take_bit 8 k" by (simp add: take_bit_eq_mask)
  moreover have "mask 8 = (255::int)" by (simp add: mask_eq_exp_minus_1)
  ultimately show ?thesis by (simp add: take_bit_eq_mod)
qed

lemma and_255_range: "0 \<le> (k::int) AND 255" "(k::int) AND 255 < 256"
  by (simp_all add: and_255_mod)

lemma manufacturer_body_eq:
  "manufacturer_body item p
     = (if vendor_fits item then Inr (p @ vendor_record item) else Inl ValueError)"
proof (cases item)
  case (Pair c d)
  have lo: "0 \<le> c AND 255" "c AND 255 < 256"
    and hi: "0 \<le> drop_bit 8 c AND 255" "drop_bit 8 c AND 255 < 256"
    by (rule and_255_range)+
  have hi_eq: "drop_bit 8 c mod 256 = c div 256 mod 256"
    by (simp add: drop_bit_eq_div)
  show ?thesis
    using lo hi
    by (simp add: Pair manufacturer_body_def vendor_fits_def vendor_record_def and_then_def
        bytearray_append_def BLE_TYPE_MANUFACTURER_DATA_def Let_def and_255_mod hi_eq length_byte_def)
qed

lemma service_data_body_ok:
  assumes "service_data_fits item"
  shows "service_data_body item p = Inr (p @ service_data_record item)"
proof (cases item)
  case (Pair u d)
  with assms have h: "is_hex (uuid_digits u)" "even (length (uuid_digits u))"
    and len: "length (uuid_digits u) div 2 + length d \<le> 254"
    by (simp_all add: service_data_fits_def)
  have ub: "bytes_fromhex (uuid_digits u) = Inr (uuid_bytes u)"
    using h by (simp add: bytes_fromhex_hex uuid_bytes_def)
  have l: "length (uuid_bytes u) = length (uuid_digits u) div 2"
    by (simp add: uuid_bytes_def length_hex_pairs)
  show ?thesis
    using len
    by (simp add: Pair service_data_body_def uuid_digits_remove ub and_then_def l
        bytearray_append_def BLE_TYPE_SERVICE_DATA_16BIT_def Let_def service_data_record_def
        length_byte_def)
qed

lemma for_each_append:
  "(\<And>x p. x \<in> set xs \<Longrightarrow> body x p = Inr (p @ f x)) \<Longrightarrow>
     for_each body xs p = Inr (p @ concat (map f xs))"
  by (induction xs arbitrary: p) simp_all

lemma for_each_fails:
  "(\<And>x p. x \<in> set xs \<Longrightarrow> body x p = (if ok x then Inr (p @ f x) else Inl e)) \<Longrightarrow>
     \<not> list_all ok xs \<Longrightarrow> for_each body xs p = Inl e"
  by (induction xs arbitrary: p) (simp_all split: if_splits)

lemma reconstruct_eq:
  assumes "\<forall>u \<in> set (service_uuids m). is_uuid128 u"
    and "\<forall>item \<in> set (manufacturer_data m). vendor_fits item"
    and "\<forall>item \<in> set (service_data m). service_data_fits item"
  shows "reconstruct_advertising_data m
           = Inr (concat (map service_id_record (service_uuids m))
                  @ concat (map vendor_record (manufacturer_data m))
                  @ concat (map service_data_record (service_data m)))"
proof -
  have a: "for_each service_uuid_body (service_uuids m) []
             = Inr ([] @ concat (map service_id_record (service_uuids m)))"
    using assms(1) by (intro for_each_append) (simp add: service_uuid_body_uuid128)
  have b: "for_each manufacturer_body (manufacturer_data m) p
             = Inr (p @ concat (map vendor_record (manufacturer_data m)))" for p
    using assms(2) by (intro for_each_append) (simp add: manufacturer_body_eq)
  have c: "for_each service_data_body (service_data m) p
             = Inr (p @ concat (map service_data_record (service_data m)))" for p
    using assms(3) by (intro for_each_append) (simp add: service_data_body_ok)
  show ?thesis
    by (cases "service_uuids m = []") (simp_all add: reconstruct_advertising_data_def and_then_def a b c)
qed

lemma reconstruct_oversized:
  assumes "\<forall>u \<in> set (service_uuids m). is_uuid128 u"
    and "\<not> list_all vendor_fits (manufacturer_data m)"
  shows "reconstruct_advertising_data m = Inl ValueError"
proof -
  have a: "for_each service_uuid_body (service_uuids m) []
             = Inr ([] @ concat (map service_id_record (service_uuids m)))"
    using assms(1) by (intro for_each_append) (simp add: service_uuid_body_uuid128)
  have b: "for_each manufacturer_body (manufacturer_data m) p = Inl ValueError" for p
    using assms(2) by (intro for_each_fails [where ok = vendor_fits and f = vendor_record])
      (simp_all add: manufacturer_body_eq)
  show ?thesis
    by (cases "service_uuids m = []") (simp_all add: reconstruct_advertising_data_def and_then_def a b)
qed

lemma split_records_append:
  "well_framed r \<Longrightarrow> split_records (r @ bs) = map_option ((#) r) (split_records bs)"
  by (cases r) (simp_all add: well_framed_def)

lemma split_records_concat:
  "list_all well_framed rs \<Longrightarrow> split_records (concat rs) = Some rs"
  by (induction rs) (simp_all add: split_records_append)

lemma length_uuid_bytes: "length (uuid_bytes u) = length (uuid_digits u) div 2"
  by (simp add: uuid_bytes_def length_hex_pairs)

lemma unat_length_byte: "n \<le> 255 \<Longrightarrow> unat (length_byte n) = n"
  by (simp add: length_byte_def unat_of_nat)

lemma well_framed_service_id: "is_uuid128 u \<Longrightarrow> well_framed (service_id_record u)"
  by (simp add: well_framed_def service_id_record_def is_uuid128_def length_uuid_bytes)

lemma well_framed_vendor: "vendor_fits item \<Longrightarrow> well_framed (vendor_record item)"
  by (cases item) (simp add: well_framed_def vendor_record_def vendor_fits_def unat_length_byte)

lemma well_framed_service_data:
  "service_data_fits item \<Longrightarrow> well_framed (service_data_record item)"
  by (cases item)
     (simp add: well_framed_def service_data_record_def service_data_fits_def
        unat_length_byte length_uuid_bytes)

lemma split_advertising_blob:
  assumes "\<forall>u \<in> set (service_uuids m). is_uuid128 u"
    and "\<forall>item \<in> set (manufacturer_data m). vendor_fits item"
    and "\<forall>item \<in> set (service_data m). service_data_fits item"
  shows "split_records (advertising_blob m) = Some (advertising_records m)"
  unfolding advertising_blob_def
proof (rule split_records_concat)
  show "list_all well_framed (advertising_records m)"
    using assms
    by (auto simp: advertising_records_def list_all_iff well_framed_service_id
        well_framed_vendor well_framed_service_data)
qed

lemma reconstruct_blob:
  assumes "\<forall>u \<in> set (service_uuids m). is_uuid128 u"
    and "\<forall>item \<in> set (manufacturer_data m). vendor_fits item"
    and "\<forall>item \<in> set (service_data m). service_data_fits item"
  shows "reconstruct_advertising_data m = Inr (advertising_blob m)"
  using reconstruct_eq [OF assms] by (simp add: advertising_blob_def advertising_records_def)


text \<open>The definitions a concrete event is evaluated with.\<close>

lemmas encoder_eval =
  reconstruct_advertising_data_def and_then_def service_uuid_body_def manufacturer_body_def
  service_data_body_def bytearray_append_def BLE_UUID_TYPE_INCOMPLETE_128_def
  BLE_TYPE_MANUFACTURER_DATA_def BLE_TYPE_SERVICE_DATA_16BIT_def str_remove_def
  hex_digit_value_def is_space_def ord_def Let_def

lemmas spec_eval =
  is_uuid128_def is_hex_def uuid_digits_def uuid_bytes_def vendor_fits_def
  service_data_fits_def service_id_record_def vendor_record_def service_data_record_def
  length_byte_def advertising_records_def advertising_blob_def hex_digit_value_def ord_def

lemmas event_defs = full_event_def oversized_event_def unsorted_event_def


lemma record_type_service_id: "record_type (service_id_record u) = 0x06"
  by (simp add: record_type_def service_id_record_def)

lemma record_type_vendor: "record_type (vendor_record item) = 0xFF"
  by (cases item) (simp add: record_type_def vendor_record_def)

lemma record_type_service_data: "record_type (service_data_record item) = 0x16"
  by (cases item) (simp add: record_type_def service_data_record_def)

lemma uint_byte_of_int: "uint (word_of_int k :: byte) = k mod 256"
  by (simp add: uint_word_of_int)

lemma record_vendor_id_vendor: "record_vendor_id (vendor_record item) = fst item mod 65536"
proof (cases item)
  case (Pair vid d)
  have "vid mod 65536 = vid mod (256 * 256)" by simp
  also have "\<dots> = 256 * (vid div 256 mod 256) + vid mod 256"
    by (rule zmod_zmult2_eq) simp
  finally show ?thesis
    by (simp add: Pair record_vendor_id_def vendor_record_def uint_byte_of_int)
qed

lemma record_payload_service_data:
  "record_payload (service_data_record item) = rev (uuid_bytes (fst item)) @ snd item"
  by (cases item) (simp add: record_payload_def service_data_record_def)

lemma filter_map_all: "(\<And>x. P (f x)) \<Longrightarrow> filter P (map f xs) = map f xs"
  by (induction xs) simp_all

lemma filter_map_none: "(\<And>x. \<not> P (f x)) \<Longrightarrow> filter P (map f xs) = []"
  by (induction xs) simp_all


section \<open>Strings, digits and JSON text: lemmas\<close>

lemma below_16_cases:
  "n < 16 \<Longrightarrow> n \<in> {0, 1, 2, 3, 4, 5, 6, 7, 8, 9, 10, 11, 12, 13, 14, 15::nat}"
  by simp arith

lemma below_10_cases: "n < 10 \<Longrightarrow> n \<in> {0, 1, 2, 3, 4, 5, 6, 7, 8, 9::nat}"
  by simp arith

lemma upper_hex_digit: "n < 16 \<Longrightarrow> upper_char (hex_digit n) = ''0123456789ABCDEF'' ! n"
  by (drule below_16_cases) (auto simp: upper_char_def hex_digit_def ord_def)

lemma byte_nibbles: "unat (b::byte) div 16 < 16" "unat b mod 16 < 16"
  using unsigned_less [of b, where 'a = nat] by simp_all

lemma str_upper_bytes_hex: "str_upper (bytes_hex bs) = hex_upper bs"
  by (induction bs)
     (simp_all add: str_upper_def bytes_hex_def hex_upper_def upper_hex_digit byte_nibbles)

lemma device_mac_eq: "str_upper (str_remove (CHR '':'') addr) = device_id addr"
  by (simp add: str_upper_def str_remove_def device_id_def)

lemma ord_digit: "n < 10 \<Longrightarrow> ord (''0123456789'' ! n) = 48 + n"
  by (drule below_10_cases) (auto simp: ord_def)

lemma plain_digit: "n < 10 \<Longrightarrow> plain_char (''0123456789'' ! n)"
  by (simp add: plain_char_def ord_digit)

lemma plain_hex_digit: "n < 16 \<Longrightarrow> plain_char (hex_digit n)"
  by (drule below_16_cases) (auto simp: plain_char_def hex_digit_def ord_def)

lemma digits_value_snoc: "digits_value (s @ [c]) = 10 * digits_value s + (ord c - 48)"
  by (simp add: digits_value_def)

lemma digits_value_str_nat: "digits_value (str_nat n) = n"
proof (induction n rule: str_nat.induct)
  case (1 n)
  show ?case
  proof (cases "n < 10")
    case True
    then show ?thesis
      by (subst str_nat.simps) (simp add: digits_value_def ord_digit)
  next
    case False
    with 1 have "digits_value (str_nat (n div 10)) = n div 10" by simp
    with False show ?thesis
      by (subst str_nat.simps) (simp add: digits_value_snoc ord_digit)
  qed
qed

lemma plain_str_nat: "list_all plain_char (str_nat n)"
proof (induction n rule: str_nat.induct)
  case (1 n)
  show ?case
  proof (cases "n < 10")
    case True
    then show ?thesis by (subst str_nat.simps) (simp add: plain_digit)
  next
    case False
    with 1 have "list_all plain_char (str_nat (n div 10))" by simp
    with False show ?thesis by (subst str_nat.simps) (simp add: plain_digit)
  qed
qed

lemma str_nat_not_empty: "str_nat n \<noteq> []"
  by (subst str_nat.simps) simp

lemma digits_value_pad3: "n < 1000 \<Longrightarrow> digits_value (pad3 n) = n"
proof -
  assume n: "n < 1000"
  have h: "n div 100 mod 10 = n div 100" "n div 100 < 10" using n by simp_all
  have "n div 100 = n div 10 div 10" by (simp add: div_mult2_eq)
  then have t: "10 * (n div 100) + n div 10 mod 10 = n div 10" by simp
  have "digits_value (pad3 n) = 10 * (10 * (n div 100) + n div 10 mod 10) + n mod 10"
    by (simp add: pad3_def digits_value_def ord_digit h)
  also have "\<dots> = n" by (simp only: t) simp
  finally show ?thesis .
qed

lemma json_escape_plain: "plain_char c \<Longrightarrow> json_escape c = [c]"
  by (auto simp: plain_char_def json_escape_def)

lemma json_string_plain:
  "list_all plain_char s \<Longrightarrow> json_string s = [CHR 0x22] @ s @ [CHR 0x22]"
proof -
  assume "list_all plain_char s"
  then have "concat (map json_escape s) = s"
    by (induction s) (simp_all add: json_escape_plain)
  then show ?thesis by (simp add: json_string_def)
qed

lemma json_dumps_envelope:
  \<open>json_dumps (JDict [(''data'', JList [JStr line]), (''mqtt_topic'', JStr topic)])
     = ''{"data":['' @ json_string line @ ''],"mqtt_topic":'' @ json_string topic @ ''}''\<close>
  by (simp add: json_string_def json_escape_def ord_def)

lemma format_ms_3f_exact:
  "\<exists>whole frac. format_ms_3f ms = (if ms < 0 then ''-'' else '''') @ whole @ ''.'' @ frac
      \<and> length frac = 3 \<and> 1000 * digits_value whole + digits_value frac = nat \<bar>ms\<bar>"
proof (intro exI conjI)
  show "format_ms_3f ms = (if ms < 0 then ''-'' else '''')
          @ str_nat (nat \<bar>ms\<bar> div 1000) @ ''.'' @ pad3 (nat \<bar>ms\<bar> mod 1000)"
    by (simp add: format_ms_3f_def)
  show "length (pad3 (nat \<bar>ms\<bar> mod 1000)) = 3"
    by (simp add: pad3_def)
  show "1000 * digits_value (str_nat (nat \<bar>ms\<bar> div 1000))
          + digits_value (pad3 (nat \<bar>ms\<bar> mod 1000)) = nat \<bar>ms\<bar>"
    by (simp add: digits_value_str_nat digits_value_pad3)
qed


lemmas string_eval =
  str_upper_def str_remove_def upper_char_def ord_def str_int_def str_nat.simps bytes_hex_def
  hex_digit_def format_ms_3f_def pad3_def json_string_def json_escape_def


lemma dict_setitem_fresh: "k \<notin> fst ` set d \<Longrightarrow> dict_setitem k v d = d @ [(k, v)]"
  by (induction d) auto

lemma fold_setitem_distinct:
  "distinct (map fst (acc @ items)) \<Longrightarrow>
     fold (\<lambda>(k, v). dict_setitem k v) items acc = acc @ items"
proof (induction items arbitrary: acc)
  case Nil
  then show ?case by simp
next
  case (Cons p items)
  obtain k v where p: "p = (k, v)" by (cases p)
  from Cons.prems p have fresh: "k \<notin> fst ` set acc" by auto
  from Cons.prems p have "distinct (map fst ((acc @ [(k, v)]) @ items))" by simp
  from Cons.IH [OF this] show ?case
    by (simp add: p dict_setitem_fresh [OF fresh])
qed

lemma dict_comprehension_distinct:
  "distinct (map fst items) \<Longrightarrow> dict_comprehension items = items"
  using fold_setitem_distinct [of "[]" items] by (simp add: dict_comprehension_def)

lemma str_nat_no_minus: "list_all (\<lambda>c. c \<noteq> CHR ''-'') (str_nat n)"
proof -
  have d: "n < 10 \<Longrightarrow> ''0123456789'' ! n \<noteq> CHR ''-''" for n
    by (drule below_10_cases) auto
  show ?thesis
  proof (induction n rule: str_nat.induct)
    case (1 n)
    show ?case
    proof (cases "n < 10")
      case True
      then show ?thesis by (subst str_nat.simps) (simp add: d)
    next
      case False
      with 1 have "list_all (\<lambda>c. c \<noteq> CHR ''-'') (str_nat (n div 10))" by simp
      with False show ?thesis by (subst str_nat.simps) (simp add: d)
    qed
  qed
qed

lemma int_value_str_int: "int_value (str_int i) = i"
proof (cases "i < 0")
  case True
  then show ?thesis
    by (simp add: int_value_def str_int_def digits_value_str_nat)
next
  case False
  obtain c r where cr: "str_nat (nat i) = c # r"
    using str_nat_not_empty [of "nat i"] by (cases "str_nat (nat i)") auto
  with str_nat_no_minus [of "nat i"] have "c \<noteq> CHR ''-''" by simp
  with False cr digits_value_str_nat [of "nat i"] show ?thesis
    by (simp add: int_value_def str_int_def)
qed

lemma inj_str_int: "inj str_int"
  by (rule inj_on_inverseI [where g = int_value]) (rule int_value_str_int)

lemma plain_str_int: "list_all plain_char (str_int i)"
  by (simp add: str_int_def plain_str_nat plain_char_def ord_def)

lemma plain_bytes_hex: "list_all plain_char (bytes_hex v)"
  by (induction v) (simp_all add: bytes_hex_def plain_hex_digit byte_nibbles)

lemma json_string_str_int: "json_string (str_int i) = quoted (str_int i)"
  by (simp add: json_string_plain plain_str_int quoted_def)

lemma json_string_bytes_hex: "json_string (bytes_hex v) = quoted (bytes_hex v)"
  by (simp add: json_string_plain plain_bytes_hex quoted_def)

lemma lower_hex_digit: "n < 16 \<Longrightarrow> hex_digit n \<in> set ''0123456789abcdef''"
  by (drule below_16_cases) (auto simp: hex_digit_def)

lemma bytes_hex_lower: "list_all (\<lambda>c. c \<in> set ''0123456789abcdef'') (bytes_hex v)"
  by (induction v) (simp_all add: bytes_hex_def lower_hex_digit byte_nibbles del: set_simps)

lemma hex_digit_value_hex_digit: "n < 16 \<Longrightarrow> hex_digit_value (hex_digit n) = Some n"
  by (drule below_16_cases) (auto simp: hex_digit_def hex_digit_value_def ord_def)

lemma hex_pairs_bytes_hex: "hex_pairs (bytes_hex v) = v"
proof (induction v)
  case Nil
  then show ?case by (simp add: bytes_hex_def)
next
  case (Cons b v)
  have "(of_nat (16 * (unat b div 16) + unat b mod 16) :: byte) = b"
    by simp
  with Cons show ?case
    by (simp add: bytes_hex_def hex_digit_value_hex_digit byte_nibbles)
qed

lemma json_dumps_optional_str:
  "json_dumps (json_optional JStr x) = (case x of None \<Rightarrow> ''null'' | Some n \<Rightarrow> json_string n)"
  by (cases x) (simp_all add: json_optional_def)

lemma json_dumps_optional_int:
  "json_dumps (json_optional JInt x) = (case x of None \<Rightarrow> ''null'' | Some p \<Rightarrow> str_int p)"
  by (cases x) (simp_all add: json_optional_def)

lemma json_dumps_vendor_dict:
  "json_dumps (JDict (map (\<lambda>(k, v). (str_int k, JStr (bytes_hex v))) items))
     = ''{'' @ str_join '','' (map (\<lambda>(k, v). quoted (str_int k) @ '':'' @ quoted (bytes_hex v)) items)
       @ ''}''"
  by (simp add: split_def json_string_str_int json_string_bytes_hex comp_def)

lemma json_dumps_service_dict:
  "json_dumps (JDict (map (\<lambda>(k, v). (k, JStr (bytes_hex v))) items))
     = ''{'' @ str_join '','' (map (\<lambda>(k, v). json_string k @ '':'' @ quoted (bytes_hex v)) items)
       @ ''}''"
  by (simp add: split_def json_string_bytes_hex comp_def)

lemma json_dumps_str_list:
  "json_dumps (JList (map JStr xs)) = ''['' @ str_join '','' (map json_string xs) @ '']''"
  by (simp add: comp_def)

lemma vendor_keys_distinct:
  assumes "distinct (map fst items)"
  shows "distinct (map fst (map (\<lambda>(k, v). (str_int k, JStr (bytes_hex v))) items))"
proof -
  have eq: "map fst (map (\<lambda>(k, v). (str_int k, JStr (bytes_hex v))) items)
      = map str_int (map fst items)"
    by (induction items) auto
  have "inj_on str_int (set (map fst items))"
    by (rule inj_on_subset [OF inj_str_int]) simp
  with assms have "distinct (map str_int (map fst items))"
    by (simp only: distinct_map)
  then show ?thesis by (simp only: eq)
qed

lemma service_keys_distinct:
  assumes "distinct (map fst items)"
  shows "distinct (map fst (map (\<lambda>(k, v). (k, JStr (bytes_hex v))) items))"
proof -
  have "map fst (map (\<lambda>(k, v). (k, JStr (bytes_hex v))) items) = map fst items"
    by (induction items) auto
  with assms show ?thesis by (simp only:)
qed

lemma key_names:
  \<open>json_string ''timestamp_ms'' = ''"timestamp_ms"''\<close>
  \<open>json_string ''device_address'' = ''"device_address"''\<close>
  \<open>json_string ''device_name'' = ''"device_name"''\<close>
  \<open>json_string ''rssi'' = ''"rssi"''\<close>
  \<open>json_string ''manufacturer_data'' = ''"manufacturer_data"''\<close>
  \<open>json_string ''service_data'' = ''"service_data"''\<close>
  \<open>json_string ''service_uuids'' = ''"service_uuids"''\<close>
  \<open>json_string ''tx_power'' = ''"tx_power"''\<close>
  by (simp_all add: json_string_def json_escape_def ord_def)

lemma json_dumps_dict8:
  "json_dumps (JDict [(k1, v1), (k2, v2), (k3, v3), (k4, v4), (k5, v5), (k6, v6), (k7, v7), (k8, v8)])
     = ''{'' @ json_string k1 @ '':'' @ json_dumps v1
       @ '','' @ json_string k2 @ '':'' @ json_dumps v2
       @ '','' @ json_string k3 @ '':'' @ json_dumps v3
       @ '','' @ json_string k4 @ '':'' @ json_dumps v4
       @ '','' @ json_string k5 @ '':'' @ json_dumps v5
       @ '','' @ json_string k6 @ '':'' @ json_dumps v6
       @ '','' @ json_string k7 @ '':'' @ json_dumps v7
       @ '','' @ json_string k8 @ '':'' @ json_dumps v8
       @ ''}''"
  by simp

lemma to_json_layout:
  assumes "distinct (map fst (manufacturer_data m))" and "distinct (map fst (service_data m))"
  shows \<open>to_json m =
      ''{"timestamp_ms":'' @ str_int (timestamp_ms m)
      @ '',"device_address":'' @ json_string (device_address m)
      @ '',"device_name":'' @ (case device_name m of None \<Rightarrow> ''null'' | Some n \<Rightarrow> json_string n)
      @ '',"rssi":'' @ str_int (rssi m)
      @ '',"manufacturer_data":{''
      @ str_join '','' (map (\<lambda>(k, v). quoted (str_int k) @ '':'' @ quoted (bytes_hex v))
                          (manufacturer_data m))
      @ ''},"service_data":{''
      @ str_join '','' (map (\<lambda>(k, v). json_string k @ '':'' @ quoted (bytes_hex v))
                          (service_data m))
      @ ''},"service_uuids":['' @ str_join '','' (map json_string (service_uuids m))
      @ ''],"tx_power":'' @ (case tx_power m of None \<Rightarrow> ''null'' | Some p \<Rightarrow> str_int p)
      @ ''}''\<close>
proof -
  have v: "dict_comprehension (map (\<lambda>(k, v). (str_int k, JStr (bytes_hex v))) (manufacturer_data m))
      = map (\<lambda>(k, v). (str_int k, JStr (bytes_hex v))) (manufacturer_data m)"
    by (rule dict_comprehension_distinct [OF vendor_keys_distinct [OF assms(1)]])
  have s: "dict_comprehension (map (\<lambda>(k, v). (k, JStr (bytes_hex v))) (service_data m))
      = map (\<lambda>(k, v). (k, JStr (bytes_hex v))) (service_data m)"
    by (rule dict_comprehension_distinct [OF service_keys_distinct [OF assms(2)]])
  have "to_json m =
      ''{'' @ json_string ''timestamp_ms'' @ '':'' @ json_dumps (JInt (timestamp_ms m))
      @ '','' @ json_string ''device_address'' @ '':'' @ json_dumps (JStr (device_address m))
      @ '','' @ json_string ''device_name'' @ '':'' @ json_dumps (json_optional JStr (device_name m))
      @ '','' @ json_string ''rssi'' @ '':'' @ json_dumps (JInt (rssi m))
      @ '','' @ json_string ''manufacturer_data'' @ '':''
        @ json_dumps (JDict (map (\<lambda>(k, v). (str_int k, JStr (bytes_hex v))) (manufacturer_data m)))
      @ '','' @ json_string ''service_data'' @ '':''
        @ json_dumps (JDict (map (\<lambda>(k, v). (k, JStr (bytes_hex v))) (service_data m)))
      @ '','' @ json_string ''service_uuids'' @ '':'' @ json_dumps (JList (map JStr (service_uuids m)))
      @ '','' @ json_string ''tx_power'' @ '':'' @ json_dumps (json_optional JInt (tx_power m))
      @ ''}''"
    by (simp only: to_json_def v s json_dumps_dict8)
  then show ?thesis
    by (simp only: key_names json_dumps_optional_str json_dumps_optional_int
        json_dumps_vendor_dict json_dumps_service_dict json_dumps_str_list json_dumps.simps(2,3))
       simp
qed

lemma run_finally_inv:
  assumes "buffer_inv b"
  shows "\<exists>b'. run_finally now b sent = Inr (sent @ map to_json (pending b), b')
           \<and> size_buffer b' = 0 \<and> last_flush_time b' = now"
proof -
  from get_messages_inv [OF assms, of now] obtain b' where
    "get_messages now b = Inr (ListBuffer (pending b), b')" "size_buffer b' = 0"
    "last_flush_time b' = now"
    by (auto simp: pending_def)
  then show ?thesis
    by (simp add: run_finally_def publish_remaining_def)
qed


lemmas json_eval =
  to_json_def dict_comprehension_def json_optional_def run_finally_def publish_remaining_def
  pending_def quoted_def


section \<open>The filter and the configuration: lemmas\<close>

lemma below_26_cases:
  "n < 26 \<Longrightarrow> n \<in> {0, 1, 2, 3, 4, 5, 6, 7, 8, 9, 10, 11, 12, 13, 14, 15, 16, 17, 18, 19, 20,
                      21, 22, 23, 24, 25::nat}"
  by simp arith

lemma ord_upper_letter: "n < 26 \<Longrightarrow> ord (''ABCDEFGHIJKLMNOPQRSTUVWXYZ'' ! n) = 65 + n"
  by (drule below_26_cases) (auto simp: ord_def)

lemma upper_char_idem: "upper_char (upper_char c) = upper_char c"
proof (cases "97 \<le> ord c \<and> ord c \<le> 122")
  case True
  then have "ord c - 97 < 26" by arith
  from ord_upper_letter [OF this] True have "ord (upper_char c) = 65 + (ord c - 97)"
    by (simp add: upper_char_def)
  with True have "\<not> (97 \<le> ord (upper_char c) \<and> ord (upper_char c) \<le> 122)"
    by arith
  then show ?thesis
    by (subst upper_char_def) auto
next
  case False
  then have "upper_char c = c" by (auto simp: upper_char_def)
  then show ?thesis by simp
qed

lemma str_upper_idem: "str_upper (str_upper s) = str_upper s"
  by (simp add: str_upper_def upper_char_idem)

lemmas filter_eval =
  should_accept_def truthy_set_def in_whitelist_def lower_device_def
  vendor_76_advertisement_def lower_case_filter_def upper_case_filter_def vendor_filter_def
  str_upper_def upper_char_def ord_def

lemmas config_eval =
  load_config_def validate_mqtt_def validate_field_def and_then_def DEFAULT_TOPIC_def
  DEFAULT_CLIENT_ID_def MAX_CLIENT_ID_LENGTH_def boolean_size_config_def

text \<open>
  What a configuration that \<open>load_config\<close> accepts holds under the three policy keys.
\<close>

lemma load_config_policy_checks:
  assumes "load_config config = Inr c"
  shows "(\<forall>v. map_of config ''publish_interval_sec'' = Some v \<longrightarrow>
            (\<exists>b. v = PBool b) \<or> (\<exists>i. v = PInt i \<and> 0 \<le> i) \<or> (\<exists>r. v = PFloat r \<and> 0 \<le> r))
       \<and> (\<forall>v. map_of config ''max_buffer_size'' = Some v \<longrightarrow>
            v = PBool True \<or> (\<exists>i. v = PInt i \<and> 1 \<le> i))
       \<and> (\<forall>v. map_of config ''throttle_control'' = Some v \<longrightarrow> (\<exists>b. v = PBool b))"
proof (intro conjI allI impI)
  fix v assume "map_of config ''publish_interval_sec'' = Some v"
  with assms show "(\<exists>b. v = PBool b) \<or> (\<exists>i. v = PInt i \<and> 0 \<le> i) \<or> (\<exists>r. v = PFloat r \<and> 0 \<le> r)"
    by (cases v) (auto simp: load_config_def split: if_splits)
next
  fix v assume "map_of config ''max_buffer_size'' = Some v"
  with assms show "v = PBool True \<or> (\<exists>i. v = PInt i \<and> 1 \<le> i)"
    by (cases v) (auto simp: load_config_def split: if_splits option.splits)
next
  fix v assume "map_of config ''throttle_control'' = Some v"
  with assms show "\<exists>b. v = PBool b"
    by (cases v) (auto simp: load_config_def split: if_splits option.splits)
qed

section \<open>MessageBuffer: the claims\<close>

text \<open>
  C4. On a buffer in throttle mode (throttle enabled and a positive interval), adding two
  events \<open>m1\<close> and \<open>m2\<close> with the same address before a drain, with any other adds \<open>ms\<close>
  between them, leaves exactly one event of that address in the next drain, and it is
  \<open>m2\<close>; from an empty buffer with nothing in between, the drain is \<open>[m2]\<close>. In every other
  mode the adds append: the drain is what was pending followed by \<open>m1\<close>, \<open>ms\<close>, \<open>m2\<close>.
\<close>

theorem throttle_last_write_wins:
  assumes "buffer_inv b" and "device_address m1 = device_address m2"
  shows "(throttle_mode b \<longrightarrow>
            (\<exists>b2 b3 msgs. add_messages (m1 # ms @ [m2]) b = Inr b2
               \<and> get_messages now b2 = Inr (ListBuffer msgs, b3)
               \<and> filter (\<lambda>m. device_address m = device_address m2) msgs = [m2]
               \<and> (size_buffer b = 0 \<and> ms = [] \<longrightarrow> msgs = [m2])))
       \<and> (\<not> throttle_mode b \<longrightarrow>
            (\<exists>l b2 b3. buffer b = ListBuffer l
               \<and> add_messages (m1 # ms @ [m2]) b = Inr b2
               \<and> get_messages now b2 = Inr (ListBuffer (l @ m1 # ms @ [m2]), b3)))"
proof (cases "throttle_mode b")
  case True
  let ?f = "\<lambda>m. dict_setitem (device_address m) m"
  let ?es = "m1 # ms @ [m2]"
  from True assms(1) obtain d where d: "buffer b = DictBuffer d"
    by (cases "buffer b") (simp_all add: buffer_inv_def)
  from add_messages_dict [OF d True, of ?es] obtain b2 where
    b2: "add_messages ?es b = Inr b2" "buffer b2 = DictBuffer (fold ?f ?es d)" by blast
  from add_messages_inv [OF assms(1), of ?es] b2 have inv2: "buffer_inv b2" by auto
  let ?d2 = "fold ?f ?es d"
  from inv2 b2(2) have dd: "distinct (map fst ?d2)"
    "list_all (\<lambda>(k, m). k = device_address m) ?d2" and tm: "throttle_mode b2"
    by (simp_all add: buffer_inv_def)
  have "?d2 = dict_setitem (device_address m2) m2 (fold ?f (m1 # ms) d)"
    by simp
  then have "map_of ?d2 (device_address m2) = Some m2"
    by (simp only: map_of_dict_setitem) simp
  with dict_values_of_address [OF dd, of "device_address m2"]
  have filt: "filter (\<lambda>m. device_address m = device_address m2) (map snd ?d2) = [m2]"
    by simp
  from tm b2(2) obtain b3 where
    g: "get_messages now b2 = Inr (ListBuffer (map snd ?d2), b3)"
    by (simp add: get_messages_def throttle_mode_def)
  have single: "map snd ?d2 = [m2]" if "size_buffer b = 0" "ms = []"
    using that d assms(2) by (simp add: size_buffer_def)
  from True b2(1) g filt single show ?thesis by auto
next
  case False
  with assms(1) obtain l where l: "buffer b = ListBuffer l"
    by (cases "buffer b") (simp_all add: buffer_inv_def)
  from add_messages_list [OF l False, of "m1 # ms @ [m2]"] obtain b2 where
    b2: "add_messages (m1 # ms @ [m2]) b = Inr b2" "buffer b2 = ListBuffer (l @ m1 # ms @ [m2])"
    by blast
  from add_messages_inv [OF assms(1), of "m1 # ms @ [m2]"] b2 False
  have "\<not> throttle_mode b2" by auto
  with b2 have "get_messages now b2
      = Inr (ListBuffer (l @ m1 # ms @ [m2]), b2\<lparr>buffer := ListBuffer [], last_flush_time := now\<rparr>)"
    by (simp add: get_messages_def throttle_mode_def)
  with False l b2(1) show ?thesis by auto
qed

theorem throttle_last_write_wins_witness:
  "buffer_inv throttled_buffer \<and> throttle_mode throttled_buffer
   \<and> buffer_inv windowed_buffer \<and> \<not> throttle_mode windowed_buffer
   \<and> device_address msg_a1 = device_address msg_a2 \<and> msg_a1 \<noteq> msg_a2
   \<and> (\<exists>b2 b3. add_messages [msg_a1, msg_b, msg_a2] throttled_buffer = Inr b2
         \<and> get_messages 7 b2 = Inr (ListBuffer [msg_a2, msg_b], b3))
   \<and> (\<exists>b2 b3. add_messages [msg_a1, msg_b, msg_a2] windowed_buffer = Inr b2
         \<and> get_messages 7 b2 = Inr (ListBuffer [msg_a1, msg_b, msg_a2], b3))"
  using throttle_last_write_wins [of throttled_buffer msg_a1 msg_a2 "[msg_b]" 7]
    throttle_last_write_wins [of windowed_buffer msg_a1 msg_a2 "[msg_b]" 7]
  by (simp add: sample_defs)

text \<open>
  C5. With interval 0, \<^verbatim>\<open>should_flush\<close> is true exactly when the buffer is not empty: false
  on an empty buffer, true right after any add. With a positive interval it is true
  exactly when the count has reached \<^verbatim>\<open>max_buffer_size\<close> (whatever the clock says), or the
  time since the last flush has reached the interval and the buffer is not empty.
\<close>

theorem should_flush_modes:
  "(publish_interval_sec b = 0 \<longrightarrow>
      should_flush now b = (size_buffer b > 0)
      \<and> (size_buffer b = 0 \<longrightarrow> \<not> should_flush now b)
      \<and> (buffer_inv b \<longrightarrow> (\<forall>m. \<exists>b'. add_message m b = Inr b' \<and> should_flush now b')))
   \<and> (publish_interval_sec b > 0 \<longrightarrow>
      should_flush now b =
        (int (size_buffer b) \<ge> max_buffer_size b
         \<or> (now - last_flush_time b \<ge> publish_interval_sec b \<and> size_buffer b > 0)))"
proof -
  have imm: "\<exists>b'. add_message m b = Inr b' \<and> should_flush now b'"
    if z: "publish_interval_sec b = 0" and inv: "buffer_inv b" for m
  proof -
    from z have nt: "\<not> throttle_mode b" by (simp add: throttle_mode_def)
    with inv obtain l where l: "buffer b = ListBuffer l"
      by (cases "buffer b") (simp_all add: buffer_inv_def)
    with z show ?thesis
      by (simp add: add_message_def should_flush_def)
  qed
  show ?thesis
    using imm by (auto simp: should_flush_def size_buffer_def Let_def)
qed

theorem should_flush_modes_witness:
  "publish_interval_sec immediate_buffer = 0 \<and> buffer_inv immediate_buffer
   \<and> \<not> should_flush 3 immediate_buffer
   \<and> (\<exists>b'. add_message msg_a1 immediate_buffer = Inr b' \<and> should_flush 3 b')
   \<and> publish_interval_sec windowed_buffer > 0
   \<and> \<not> should_flush 9 windowed_buffer
   \<and> (\<exists>b'. add_message msg_a1 windowed_buffer = Inr b'
         \<and> \<not> should_flush 3 b' \<and> should_flush 5 b'
         \<and> (\<exists>b''. add_message msg_b b' = Inr b'' \<and> should_flush 3 b''))"
  using should_flush_modes [of immediate_buffer 3] should_flush_modes [of windowed_buffer 9]
  by (simp add: sample_defs)

text \<open>
  C6. On every buffer that satisfies the class invariant, \<^verbatim>\<open>get_messages\<close> returns all the
  pending events and no others, leaves the buffer empty (\<^verbatim>\<open>size() == 0\<close>) and sets
  \<^verbatim>\<open>last_flush_time\<close> to the clock reading; on an empty buffer it returns the empty list
  and still sets the time. It never returns more events than were added since the buffer
  was last empty (after \<^verbatim>\<open>__init__\<close> or the previous drain).
\<close>

theorem drain_returns_all_and_empties:
  assumes "buffer_inv b"
  shows "\<exists>msgs b'. get_messages now b = Inr (ListBuffer msgs, b')
           \<and> msgs = (case buffer b of DictBuffer d \<Rightarrow> map snd d | ListBuffer l \<Rightarrow> l)
           \<and> length msgs = size_buffer b
           \<and> size_buffer b' = 0
           \<and> last_flush_time b' = now
           \<and> buffer_inv b'
           \<and> (size_buffer b = 0 \<longrightarrow> msgs = [])
           \<and> (\<forall>b0 es. buffer_inv b0 \<and> size_buffer b0 = 0 \<and> add_messages es b0 = Inr b
                 \<longrightarrow> length msgs \<le> length es)"
proof -
  from get_messages_inv [OF assms, of now] obtain b' where
    g: "get_messages now b
          = Inr (ListBuffer (case buffer b of DictBuffer d \<Rightarrow> map snd d | ListBuffer l \<Rightarrow> l), b')"
    and b': "buffer_inv b'" "size_buffer b' = 0" "last_flush_time b' = now"
    by blast
  let ?msgs = "case buffer b of DictBuffer d \<Rightarrow> map snd d | ListBuffer l \<Rightarrow> l"
  have len: "length ?msgs = size_buffer b"
    by (simp add: size_buffer_def split: buffer_store.splits)
  have bound: "length ?msgs \<le> length es"
    if b0: "buffer_inv b0" "size_buffer b0 = 0" "add_messages es b0 = Inr b" for b0 es
  proof (cases "buffer b0")
    case (DictBuffer d)
    with b0 have "d = []" and "throttle_mode b0"
      by (simp_all add: size_buffer_def buffer_inv_def)
    with add_messages_dict [OF DictBuffer, of es] b0(3)
    have "buffer b = DictBuffer (fold (\<lambda>m. dict_setitem (device_address m) m) es [])"
      by auto
    then show ?thesis
      using fold_setitem_length [of device_address es "[]"] by simp
  next
    case (ListBuffer l)
    with b0 have "l = []" and "\<not> throttle_mode b0"
      by (simp_all add: size_buffer_def buffer_inv_def)
    with add_messages_list [OF ListBuffer, of es] b0(3)
    have "buffer b = ListBuffer es" by auto
    then show ?thesis by simp
  qed
  from g b' len bound show ?thesis by auto
qed

theorem drain_returns_all_and_empties_witness:
  "buffer_inv throttled_buffer
   \<and> (\<exists>b'. get_messages 7 throttled_buffer = Inr (ListBuffer [], b')
         \<and> size_buffer b' = 0 \<and> last_flush_time b' = 7)
   \<and> (\<exists>b b'. add_messages [msg_a1, msg_b, msg_a2] throttled_buffer = Inr b
         \<and> buffer_inv b \<and> size_buffer b = 2
         \<and> get_messages 7 b = Inr (ListBuffer [msg_a2, msg_b], b')
         \<and> size_buffer b' = 0 \<and> last_flush_time b' = 7)"
  using drain_returns_all_and_empties [of throttled_buffer 7]
  by (simp add: sample_defs)

text \<open>
  C10. On a buffer that is not in throttle mode (throttle disabled, or interval 0) and is
  empty, as after \<^verbatim>\<open>__init__\<close> or a drain, any run of adds followed by a drain returns
  exactly the added events, in arrival order.
\<close>

theorem nonthrottled_drain_fifo:
  assumes "buffer_inv b0" and "\<not> throttle_mode b0" and "size_buffer b0 = 0"
  shows "\<exists>b1 b2. add_messages es b0 = Inr b1 \<and> get_messages now b1 = Inr (ListBuffer es, b2)
           \<and> size_buffer b2 = 0"
proof -
  from assms obtain l where l: "buffer b0 = ListBuffer l"
    by (cases "buffer b0") (simp_all add: buffer_inv_def)
  with assms(3) have "l = []" by (simp add: size_buffer_def)
  with add_messages_list [OF l assms(2), of es] obtain b1 where
    b1: "add_messages es b0 = Inr b1" "buffer b1 = ListBuffer es" by auto
  from add_messages_inv [OF assms(1), of es] b1 have "\<not> throttle_mode b1"
    using assms(2) by auto
  with b1 show ?thesis
    by (simp add: get_messages_def throttle_mode_def size_buffer_def)
qed

theorem nonthrottled_drain_fifo_witness:
  "buffer_inv immediate_buffer \<and> \<not> throttle_mode immediate_buffer
   \<and> size_buffer immediate_buffer = 0
   \<and> (\<exists>b1 b2. add_messages [msg_a1, msg_a2, msg_b, msg_a1] immediate_buffer = Inr b1
         \<and> get_messages 7 b1 = Inr (ListBuffer [msg_a1, msg_a2, msg_b, msg_a1], b2)
         \<and> size_buffer b2 = 0)"
  using nonthrottled_drain_fifo [of immediate_buffer "[msg_a1, msg_a2, msg_b, msg_a1]" 7]
  by (simp add: sample_defs)

section \<open>The encoders: the claims\<close>

text \<open>
  C2 (as amended). For every event whose service ids each denote a 128-bit UUID, whose
  vendor entries hold at most 252 data bytes and whose service-data keys are an even
  number of hexadecimal digits (hyphens apart) with UUID bytes and data of at most 254
  bytes together, the binary reconstruction is the concatenation, with no terminator, of
  one record per service id in list order (length 17, type 0x06, the 16 bytes reversed),
  then one per vendor entry (length \<open>3 + len(data)\<close>, type 0xFF, the id in two bytes low
  byte first, the data), then one per service-data entry (length
  \<open>1 + len(uuid bytes) + len(data)\<close>, type 0x16, the UUID bytes reversed, the data). Read
  back by its length framing the blob splits into exactly these records; with one service
  id, one vendor entry of 4 bytes and one service-data entry of 2 bytes they are three,
  with length bytes 17, 7 and the UUID's byte length plus 3.
\<close>

theorem reconstruct_concatenates_records:
  assumes "\<forall>u \<in> set (service_uuids m). is_uuid128 u"
    and "\<forall>item \<in> set (manufacturer_data m). vendor_fits item"
    and "\<forall>item \<in> set (service_data m). service_data_fits item"
  shows "reconstruct_advertising_data m
           = Inr (concat (map service_id_record (service_uuids m))
                  @ concat (map vendor_record (manufacturer_data m))
                  @ concat (map service_data_record (service_data m)))
       \<and> split_records (advertising_blob m) = Some (advertising_records m)
       \<and> map hd (advertising_records m)
           = map (\<lambda>u. 17) (service_uuids m)
             @ map (\<lambda>item. length_byte (3 + length (snd item))) (manufacturer_data m)
             @ map (\<lambda>item. length_byte (1 + length (uuid_bytes (fst item)) + length (snd item)))
                 (service_data m)
       \<and> (\<forall>u vid d k sd.
             service_uuids m = [u] \<and> manufacturer_data m = [(vid, d)] \<and> length d = 4
               \<and> service_data m = [(k, sd)] \<and> length sd = 2
             \<longrightarrow> (\<exists>r1 r2 r3. reconstruct_advertising_data m = Inr (r1 @ r2 @ r3)
                    \<and> split_records (r1 @ r2 @ r3) = Some [r1, r2, r3]
                    \<and> hd r1 = 17 \<and> hd r2 = 7 \<and> hd r3 = length_byte (length (uuid_bytes k) + 3)))"
proof -
  have eq: "reconstruct_advertising_data m = Inr (advertising_blob m)"
    by (rule reconstruct_blob [OF assms])
  have split: "split_records (advertising_blob m) = Some (advertising_records m)"
    by (rule split_advertising_blob [OF assms])
  have heads: "map hd (advertising_records m)
           = map (\<lambda>u. 17) (service_uuids m)
             @ map (\<lambda>item. length_byte (3 + length (snd item))) (manufacturer_data m)
             @ map (\<lambda>item. length_byte (1 + length (uuid_bytes (fst item)) + length (snd item)))
                 (service_data m)"
    by (simp add: advertising_records_def service_id_record_def vendor_record_def
        service_data_record_def case_prod_beta)
  have three: "\<exists>r1 r2 r3. reconstruct_advertising_data m = Inr (r1 @ r2 @ r3)
                    \<and> split_records (r1 @ r2 @ r3) = Some [r1, r2, r3]
                    \<and> hd r1 = 17 \<and> hd r2 = 7 \<and> hd r3 = length_byte (length (uuid_bytes k) + 3)"
    if "service_uuids m = [u]" "manufacturer_data m = [(vid, d)]" "length d = 4"
      "service_data m = [(k, sd)]" "length sd = 2" for u vid d k sd
  proof (intro exI conjI)
    show "reconstruct_advertising_data m
            = Inr (service_id_record u @ vendor_record (vid, d) @ service_data_record (k, sd))"
      using eq that by (simp add: advertising_blob_def advertising_records_def)
    show "split_records (service_id_record u @ vendor_record (vid, d) @ service_data_record (k, sd))
            = Some [service_id_record u, vendor_record (vid, d), service_data_record (k, sd)]"
      using split that by (simp add: advertising_blob_def advertising_records_def)
    show "hd (service_id_record u) = 17"
      by (simp add: service_id_record_def)
    show "hd (vendor_record (vid, d)) = 7"
      using that(3) by (simp add: vendor_record_def length_byte_def)
    show "hd (service_data_record (k, sd)) = length_byte (length (uuid_bytes k) + 3)"
      using that(5) by (simp add: service_data_record_def numeral_3_eq_3)
  qed
  from eq split heads three show ?thesis
    by (simp add: advertising_blob_def advertising_records_def)
qed

theorem reconstruct_concatenates_records_witness:
  "list_all is_uuid128 (service_uuids full_event)
   \<and> list_all vendor_fits (manufacturer_data full_event)
   \<and> list_all service_data_fits (service_data full_event)
   \<and> reconstruct_advertising_data full_event
       = Inr [17, 0x06, 0xfb, 0x34, 0x9b, 0x5f, 0x80, 0, 0, 0x80, 0, 0x10, 0, 0, 0x0f, 0x18, 0, 0,
              7, 0xFF, 76, 0, 1, 2, 3, 255,
              19, 0x16, 0xfb, 0x34, 0x9b, 0x5f, 0x80, 0, 0, 0x80, 0, 0x10, 0, 0, 0x0f, 0x18, 0, 0,
              100, 0]
   \<and> map hd (advertising_records full_event) = [17, 7, 19]"
  using reconstruct_concatenates_records [of full_event]
  by (simp add: event_defs spec_eval)

text \<open>
  The claim as stated fails where a length does not fit its byte: the vendor entry of this
  event holds 253 data bytes, \<^verbatim>\<open>bytearray.append(256)\<close> raises ValueError and no blob is
  produced.
\<close>

theorem reconstruct_oversized_counterexample:
  "list_all is_uuid128 (service_uuids oversized_event)
   \<and> manufacturer_data oversized_event = [(76, replicate 253 0)]
   \<and> reconstruct_advertising_data oversized_event = Inl ValueError"
  using reconstruct_oversized [of oversized_event]
  by (simp add: event_defs spec_eval)


text \<open>
  C3 (as amended). The vendor-data records and the service-data records are emitted in the
  iteration order of the maps, which for a Python dict is the insertion order; nothing is
  sorted. Read back by the length framing, the vendor ids of the type 0xFF records are the
  keys of \<^verbatim>\<open>manufacturer_data\<close> in that order (their low 16 bits), and the payloads of the
  type 0x16 records are those of the entries of \<^verbatim>\<open>service_data\<close> in that order. The records
  are in ascending key order exactly when the maps were filled in that order.
\<close>

theorem records_follow_insertion_order:
  assumes "\<forall>u \<in> set (service_uuids m). is_uuid128 u"
    and "\<forall>item \<in> set (manufacturer_data m). vendor_fits item"
    and "\<forall>item \<in> set (service_data m). service_data_fits item"
  shows "\<exists>blob records.
           reconstruct_advertising_data m = Inr blob \<and> split_records blob = Some records
           \<and> map record_vendor_id (filter (\<lambda>r. record_type r = 0xFF) records)
               = map (\<lambda>item. fst item mod 65536) (manufacturer_data m)
           \<and> map record_payload (filter (\<lambda>r. record_type r = 0x16) records)
               = map (\<lambda>item. rev (uuid_bytes (fst item)) @ snd item) (service_data m)"
proof (intro exI conjI)
  show "reconstruct_advertising_data m = Inr (advertising_blob m)"
    by (rule reconstruct_blob [OF assms])
  show "split_records (advertising_blob m) = Some (advertising_records m)"
    by (rule split_advertising_blob [OF assms])
  have v: "filter (\<lambda>r. record_type r = 0xFF) (advertising_records m)
             = map vendor_record (manufacturer_data m)"
    by (simp add: advertising_records_def filter_map_all filter_map_none
        record_type_service_id record_type_vendor record_type_service_data)
  show "map record_vendor_id (filter (\<lambda>r. record_type r = 0xFF) (advertising_records m))
          = map (\<lambda>item. fst item mod 65536) (manufacturer_data m)"
    by (simp add: v record_vendor_id_vendor)
  have s: "filter (\<lambda>r. record_type r = 0x16) (advertising_records m)
             = map service_data_record (service_data m)"
    by (simp add: advertising_records_def filter_map_all filter_map_none
        record_type_service_id record_type_vendor record_type_service_data)
  show "map record_payload (filter (\<lambda>r. record_type r = 0x16) (advertising_records m))
          = map (\<lambda>item. rev (uuid_bytes (fst item)) @ snd item) (service_data m)"
    by (simp add: s record_payload_service_data)
qed

theorem records_follow_insertion_order_witness:
  "list_all vendor_fits (manufacturer_data unsorted_event)
   \<and> service_uuids unsorted_event = [] \<and> service_data unsorted_event = []
   \<and> reconstruct_advertising_data unsorted_event = Inr (advertising_blob unsorted_event)
   \<and> split_records (advertising_blob unsorted_event)
       = Some [[4, 0xFF, 2, 0, 0xAA], [4, 0xFF, 1, 0, 0xBB]]
   \<and> map record_vendor_id [[4, 0xFF, 2, 0, 0xAA], [4, 0xFF, 1, 0, 0xBB]] = [2, 1]
   \<and> map fst (manufacturer_data unsorted_event) = [2, 1]"
  using records_follow_insertion_order [of unsorted_event]
  by (simp add: event_defs spec_eval encoder_eval record_vendor_id_def)

text \<open>
  The claim as stated fails: with the vendor entries inserted as 2, then 1, the record of
  vendor 2 comes first.
\<close>

theorem reconstruct_insertion_order_counterexample:
  "manufacturer_data unsorted_event = [(2, [0xAA]), (1, [0xBB])]
   \<and> reconstruct_advertising_data unsorted_event = Inr [4, 0xFF, 2, 0, 0xAA, 4, 0xFF, 1, 0, 0xBB]
   \<and> reconstruct_advertising_data unsorted_event \<noteq> Inr [4, 0xFF, 1, 0, 0xBB, 4, 0xFF, 2, 0, 0xAA]"
  by (simp add: event_defs encoder_eval)

section \<open>The wire formats: the claims\<close>

text \<open>
  C1 (as amended). For every event whose binary reconstruction succeeds and whose
  \<^verbatim>\<open>timestamp_ms\<close> is below \<open>2 ^ 52\<close> in magnitude, \<^verbatim>\<open>to_gprp_format\<close> produces exactly the compact
  JSON object \<^verbatim>\<open>{"data":[line],"mqtt_topic":topic}\<close>, the two strings written as
  \<^verbatim>\<open>json.dumps\<close> writes a string, where the line is \<^verbatim>\<open>$GPRP\<close>, the gateway id as the caller
  gave it, the address without its \<open>:\<close> separators in upper case, the rssi in decimal,
  the blob in upper-case hexadecimal and the timestamp in seconds, joined by commas. The
  seconds have exactly three fractional digits and are the exact quotient: thousand
  times the whole part plus the fraction is the timestamp's magnitude. When the
  reconstruction raises, the rendering raises the same exception. For the fixed event of
  the specification the object is the expected literal, with device id AABBCCDDEEFF,
  timestamp 1700000000.000 and an empty blob.
\<close>

theorem gprp_envelope:
  \<open>(\<forall>blob. reconstruct_advertising_data m = Inr blob \<and> \<bar>timestamp_ms m\<bar> < 2 ^ 52 \<longrightarrow>
       to_gprp_format m gateway_id topic
         = Inr (''{"data":['' @ json_string (gprp_line gateway_id m blob)
                @ ''],"mqtt_topic":'' @ json_string topic @ ''}'')
       \<and> gprp_line gateway_id m blob
           = ''$GPRP,'' @ gateway_id @ '','' @ map upper_char (filter (\<lambda>c. c \<noteq> CHR '':'') (device_address m))
               @ '','' @ str_int (rssi m) @ '','' @ hex_upper blob @ '','' @ format_ms_3f (timestamp_ms m)
       \<and> (\<exists>whole frac.
             format_ms_3f (timestamp_ms m)
               = (if timestamp_ms m < 0 then ''-'' else '''') @ whole @ ''.'' @ frac
             \<and> length frac = 3
             \<and> 1000 * digits_value whole + digits_value frac = nat \<bar>timestamp_ms m\<bar>))
   \<and> (\<forall>e. reconstruct_advertising_data m = Inl e \<longrightarrow> to_gprp_format m gateway_id topic = Inl e)
   \<and> (timestamp_ms m = 1700000000000 \<and> device_address m = ''AA:BB:CC:DD:EE:FF''
        \<and> rssi m = - 67 \<and> manufacturer_data m = [] \<and> service_data m = []
        \<and> service_uuids m = [] \<longrightarrow>
       to_gprp_format m ''A1B2C3D4E5F6'' topic
         = Inr (''{"data":["$GPRP,A1B2C3D4E5F6,AABBCCDDEEFF,-67,,1700000000.000"],"mqtt_topic":''
                @ json_string topic @ ''}''))\<close>
proof (intro conjI allI impI)
  fix blob
  assume a: "reconstruct_advertising_data m = Inr blob \<and> \<bar>timestamp_ms m\<bar> < 2 ^ 52"
  then show \<open>to_gprp_format m gateway_id topic
         = Inr (''{"data":['' @ json_string (gprp_line gateway_id m blob)
                @ ''],"mqtt_topic":'' @ json_string topic @ ''}'')\<close>
    by (simp only: to_gprp_format_def and_then_def Let_def sum.case json_dumps_envelope
        str_upper_bytes_hex device_mac_eq gprp_line_def)
  show "gprp_line gateway_id m blob
           = ''$GPRP,'' @ gateway_id @ '','' @ map upper_char (filter (\<lambda>c. c \<noteq> CHR '':'') (device_address m))
               @ '','' @ str_int (rssi m) @ '','' @ hex_upper blob @ '','' @ format_ms_3f (timestamp_ms m)"
    by (simp add: gprp_line_def device_id_def)
  show "\<exists>whole frac.
             format_ms_3f (timestamp_ms m)
               = (if timestamp_ms m < 0 then ''-'' else '''') @ whole @ ''.'' @ frac
             \<and> length frac = 3
             \<and> 1000 * digits_value whole + digits_value frac = nat \<bar>timestamp_ms m\<bar>"
    by (rule format_ms_3f_exact)
next
  fix e
  assume "reconstruct_advertising_data m = Inl e"
  then show "to_gprp_format m gateway_id topic = Inl e"
    by (simp add: to_gprp_format_def and_then_def)
next
  assume f: "timestamp_ms m = 1700000000000 \<and> device_address m = ''AA:BB:CC:DD:EE:FF''
        \<and> rssi m = - 67 \<and> manufacturer_data m = [] \<and> service_data m = []
        \<and> service_uuids m = []"
  then have r: "reconstruct_advertising_data m = Inr []"
    by (simp add: reconstruct_advertising_data_def and_then_def)
  have line: \<open>''$GPRP,'' @ ''A1B2C3D4E5F6'' @ '','' @ str_upper (str_remove (CHR '':'') (device_address m))
      @ '','' @ str_int (rssi m) @ '','' @ str_upper (bytes_hex []) @ '','' @ format_ms_3f (timestamp_ms m)
      = ''$GPRP,A1B2C3D4E5F6,AABBCCDDEEFF,-67,,1700000000.000''\<close>
    using f
    by (simp add: str_upper_def str_remove_def upper_char_def ord_def str_int_def str_nat.simps
        bytes_hex_def format_ms_3f_def pad3_def)
  have q: \<open>json_string ''$GPRP,A1B2C3D4E5F6,AABBCCDDEEFF,-67,,1700000000.000''
      = ''"$GPRP,A1B2C3D4E5F6,AABBCCDDEEFF,-67,,1700000000.000"''\<close>
    by (simp add: json_string_def json_escape_def ord_def)
  show \<open>to_gprp_format m ''A1B2C3D4E5F6'' topic
         = Inr (''{"data":["$GPRP,A1B2C3D4E5F6,AABBCCDDEEFF,-67,,1700000000.000"],"mqtt_topic":''
                @ json_string topic @ ''}'')\<close>
    by (simp only: to_gprp_format_def and_then_def Let_def sum.case r line json_dumps_envelope q)
       simp
qed

theorem gprp_envelope_witness:
  \<open>reconstruct_advertising_data full_event
     = Inr [17, 0x06, 0xfb, 0x34, 0x9b, 0x5f, 0x80, 0, 0, 0x80, 0, 0x10, 0, 0, 0x0f, 0x18, 0, 0,
            7, 0xFF, 76, 0, 1, 2, 3, 255,
            19, 0x16, 0xfb, 0x34, 0x9b, 0x5f, 0x80, 0, 0, 0x80, 0, 0x10, 0, 0, 0x0f, 0x18, 0, 0,
            100, 0]
   \<and> \<bar>timestamp_ms full_event\<bar> < 2 ^ 52
   \<and> to_gprp_format full_event ''A1B2C3D4E5F6'' ''ble/gateway/data''
       = Inr ''{"data":["$GPRP,A1B2C3D4E5F6,AABBCCDDEEFF,-67,1106FB349B5F80000080001000000F18000007FF4C00010203FF1316FB349B5F80000080001000000F1800006400,1700000000.042"],"mqtt_topic":"ble/gateway/data"}''\<close>
  using gprp_envelope [of full_event "''A1B2C3D4E5F6''" "''ble/gateway/data''"]
  by (simp add: event_defs encoder_eval string_eval to_gprp_format_def)

text \<open>
  The claim as stated fails for an event that cannot be framed: the rendering raises
  ValueError and produces no JSON object.
\<close>

theorem gprp_envelope_counterexample:
  "manufacturer_data oversized_event = [(76, replicate 253 0)]
   \<and> to_gprp_format oversized_event ''A1B2C3D4E5F6'' ''ble/gateway/data'' = Inl ValueError"
  using reconstruct_oversized [of oversized_event]
  by (simp add: event_defs spec_eval to_gprp_format_def and_then_def)

text \<open>
  C8. For every event (its two dicts having unique keys, as dicts do) \<^verbatim>\<open>to_json\<close> is the
  compact JSON object of the eight fields in declaration order, with nothing between the
  tokens: the integers in decimal, the strings as \<^verbatim>\<open>json.dumps\<close> writes them, an absent name
  or tx power as \<^verbatim>\<open>null\<close>, every byte sequence as a quoted lower-case hexadecimal string
  that decodes back to the bytes, and every vendor id as a quoted decimal string that
  reads back as the id. At shutdown the \<^verbatim>\<open>finally\<close> block of \<^verbatim>\<open>run\<close> drains the buffer without
  consulting \<^verbatim>\<open>should_flush\<close> and hands \<^verbatim>\<open>to_json\<close> of every pending event, in drain order, to
  the publisher; the buffer is left empty.
\<close>

theorem full_json_and_final_flush:
  \<open>(distinct (map fst (manufacturer_data m)) \<and> distinct (map fst (service_data m)) \<longrightarrow>
      to_json m =
        ''{"timestamp_ms":'' @ str_int (timestamp_ms m)
        @ '',"device_address":'' @ json_string (device_address m)
        @ '',"device_name":'' @ (case device_name m of None \<Rightarrow> ''null'' | Some n \<Rightarrow> json_string n)
        @ '',"rssi":'' @ str_int (rssi m)
        @ '',"manufacturer_data":{''
        @ str_join '','' (map (\<lambda>(k, v). quoted (str_int k) @ '':'' @ quoted (bytes_hex v))
                            (manufacturer_data m))
        @ ''},"service_data":{''
        @ str_join '','' (map (\<lambda>(k, v). json_string k @ '':'' @ quoted (bytes_hex v))
                            (service_data m))
        @ ''},"service_uuids":['' @ str_join '','' (map json_string (service_uuids m))
        @ ''],"tx_power":'' @ (case tx_power m of None \<Rightarrow> ''null'' | Some p \<Rightarrow> str_int p)
        @ ''}'')
   \<and> (\<forall>v. list_all (\<lambda>c. c \<in> set ''0123456789abcdef'') (bytes_hex v) \<and> hex_pairs (bytes_hex v) = v)
   \<and> (\<forall>k. int_value (str_int k) = k)
   \<and> (buffer_inv b \<longrightarrow>
        (\<exists>b'. run_finally now b sent = Inr (sent @ map to_json (pending b), b')
           \<and> size_buffer b' = 0 \<and> last_flush_time b' = now))\<close>
  using to_json_layout [of m] run_finally_inv [of b now sent]
  by (simp only: bytes_hex_lower hex_pairs_bytes_hex int_value_str_int) blast

theorem full_json_and_final_flush_witness:
  \<open>distinct (map fst (manufacturer_data full_event))
   \<and> distinct (map fst (service_data full_event))
   \<and> to_json full_event
       = ''{"timestamp_ms":1700000000042,"device_address":"aa:bb:cc:dd:ee:ff","device_name":"Tag 7","rssi":-67,"manufacturer_data":{"76":"010203ff"},"service_data":{"0000180f-0000-1000-8000-00805f9b34fb":"6400"},"service_uuids":["0000180f-0000-1000-8000-00805f9b34fb"],"tx_power":-4}''
   \<and> buffer_inv pending_buffer \<and> pending pending_buffer = [full_event]
   \<and> \<not> should_flush 2 pending_buffer
   \<and> run_finally 2 pending_buffer []
       = Inr ([to_json full_event],
              pending_buffer\<lparr>buffer := ListBuffer [], last_flush_time := 2\<rparr>)\<close>
  using full_json_and_final_flush [of full_event pending_buffer 2 "[]"]
  by (simp add: event_defs sample_defs pending_buffer_def string_eval json_eval)

section \<open>The filter and the configuration: the claims\<close>

text \<open>
  C7 (as amended). A whitelist counts as configured when it is present and not empty. A
  filter with no whitelist configured accepts every input. A filter with at least one
  accepts exactly when the upper-cased source address is in the address set, or the source
  name is present, not empty and in the name set, or some vendor id of the event is in the
  vendor-id set, or some service id of the event is in the service-id set. The address
  test is case-insensitive membership when the set holds upper-cased addresses, as the
  gateway builds it. A filter with only a vendor-id set rejects every event whose vendor
  ids are none or disjoint from the set.
\<close>

theorem should_accept_any_criterion:
  "(\<not> (truthy_set (mac_whitelist f) \<or> truthy_set (name_whitelist f)
         \<or> truthy_set (manufacturer_id_whitelist f) \<or> truthy_set (service_uuid_whitelist f))
      \<longrightarrow> should_accept f d a)
   \<and> (truthy_set (mac_whitelist f) \<or> truthy_set (name_whitelist f)
        \<or> truthy_set (manufacturer_id_whitelist f) \<or> truthy_set (service_uuid_whitelist f)
      \<longrightarrow> should_accept f d a
            = (in_whitelist (str_upper (address d)) (mac_whitelist f)
               \<or> (\<exists>n. name d = Some n \<and> n \<noteq> [] \<and> in_whitelist n (name_whitelist f))
               \<or> (\<exists>mid \<in> fst ` set (adv_manufacturer_data a).
                     in_whitelist mid (manufacturer_id_whitelist f))
               \<or> (\<exists>u \<in> set (adv_service_uuids a). in_whitelist u (service_uuid_whitelist f))))
   \<and> (\<forall>S. mac_whitelist f = Some S \<and> (\<forall>x \<in> S. str_upper x = x)
         \<longrightarrow> in_whitelist (str_upper (address d)) (mac_whitelist f)
              = (\<exists>x \<in> S. str_upper x = str_upper (address d)))
   \<and> (\<forall>S. mac_whitelist f = None \<and> name_whitelist f = None \<and> service_uuid_whitelist f = None
           \<and> manufacturer_id_whitelist f = Some S \<and> S \<noteq> {}
           \<and> fst ` set (adv_manufacturer_data a) \<inter> S = {}
         \<longrightarrow> \<not> should_accept f d a)"
proof (intro conjI)
  show "\<not> (truthy_set (mac_whitelist f) \<or> truthy_set (name_whitelist f)
         \<or> truthy_set (manufacturer_id_whitelist f) \<or> truthy_set (service_uuid_whitelist f))
      \<longrightarrow> should_accept f d a"
    by (simp add: should_accept_def)
  show "truthy_set (mac_whitelist f) \<or> truthy_set (name_whitelist f)
        \<or> truthy_set (manufacturer_id_whitelist f) \<or> truthy_set (service_uuid_whitelist f)
      \<longrightarrow> should_accept f d a
            = (in_whitelist (str_upper (address d)) (mac_whitelist f)
               \<or> (\<exists>n. name d = Some n \<and> n \<noteq> [] \<and> in_whitelist n (name_whitelist f))
               \<or> (\<exists>mid \<in> fst ` set (adv_manufacturer_data a).
                     in_whitelist mid (manufacturer_id_whitelist f))
               \<or> (\<exists>u \<in> set (adv_service_uuids a). in_whitelist u (service_uuid_whitelist f)))"
    by (auto simp: should_accept_def truthy_set_def in_whitelist_def list_ex_iff
        split: option.splits)
  show "\<forall>S. mac_whitelist f = Some S \<and> (\<forall>x \<in> S. str_upper x = x)
         \<longrightarrow> in_whitelist (str_upper (address d)) (mac_whitelist f)
              = (\<exists>x \<in> S. str_upper x = str_upper (address d))"
  proof (intro allI impI)
    fix S
    assume s: "mac_whitelist f = Some S \<and> (\<forall>x \<in> S. str_upper x = x)"
    show "in_whitelist (str_upper (address d)) (mac_whitelist f)
            = (\<exists>x \<in> S. str_upper x = str_upper (address d))"
    proof
      assume "in_whitelist (str_upper (address d)) (mac_whitelist f)"
      with s have "str_upper (address d) \<in> S" by (simp add: in_whitelist_def)
      then show "\<exists>x \<in> S. str_upper x = str_upper (address d)"
        using str_upper_idem by blast
    next
      assume "\<exists>x \<in> S. str_upper x = str_upper (address d)"
      then obtain x where "x \<in> S" "str_upper x = str_upper (address d)" by blast
      with s have "str_upper (address d) \<in> S" by auto
      with s show "in_whitelist (str_upper (address d)) (mac_whitelist f)"
        by (simp add: in_whitelist_def)
    qed
  qed
  show "\<forall>S. mac_whitelist f = None \<and> name_whitelist f = None \<and> service_uuid_whitelist f = None
           \<and> manufacturer_id_whitelist f = Some S \<and> S \<noteq> {}
           \<and> fst ` set (adv_manufacturer_data a) \<inter> S = {}
         \<longrightarrow> \<not> should_accept f d a"
    by (auto simp: should_accept_def truthy_set_def in_whitelist_def list_ex_iff)
qed

theorem should_accept_any_criterion_witness:
  "truthy_set (mac_whitelist upper_case_filter)
   \<and> should_accept upper_case_filter lower_device vendor_76_advertisement
   \<and> should_accept (vendor_filter {}) lower_device vendor_76_advertisement
   \<and> should_accept (vendor_filter {76, 89}) lower_device vendor_76_advertisement
   \<and> \<not> should_accept (vendor_filter {89}) lower_device vendor_76_advertisement
   \<and> \<not> should_accept (vendor_filter {89})
          lower_device (vendor_76_advertisement\<lparr>adv_manufacturer_data := []\<rparr>)"
  using should_accept_any_criterion [of upper_case_filter lower_device vendor_76_advertisement]
    should_accept_any_criterion [of "vendor_filter {89}" lower_device vendor_76_advertisement]
  by (simp add: filter_eval)

text \<open>
  The claim as stated fails for an address set with a lower-case entry: the device's
  address is that very entry, and the filter rejects it, since only the device's side of
  the comparison is upper-cased.
\<close>

theorem should_accept_lower_case_counterexample:
  "mac_whitelist lower_case_filter = Some {''aa:bb:cc:dd:ee:ff''}
   \<and> address lower_device = ''aa:bb:cc:dd:ee:ff''
   \<and> \<not> should_accept lower_case_filter lower_device vendor_76_advertisement"
  by (simp add: filter_eval)

text \<open>
  C9. \<open>load_config\<close> tests the batch size with \<^verbatim>\<open>isinstance(size, int)\<close> and the interval with
  \<^verbatim>\<open>isinstance(interval, (int, float))\<close>, which hold of a bool: a configuration whose
  \<^verbatim>\<open>max_buffer_size\<close> or \<^verbatim>\<open>publish_interval_sec\<close> is the JSON value \<^verbatim>\<open>true\<close> is accepted.
\<close>

theorem load_config_accepts_boolean_size:
  "map_of boolean_size_config ''max_buffer_size'' = Some (PBool True)
   \<and> load_config boolean_size_config = Inr boolean_size_config
   \<and> load_config [(''publish_interval_sec'', PBool True), (''mqtt'', PDict [(''broker'', PStr ''b'')])]
       = Inr [(''publish_interval_sec'', PBool True), (''mqtt'', PDict [(''broker'', PStr ''b'')])]"
  by (simp add: config_eval)


theorem load_config_accepts_boolean_size_witness:
  "is_int (PBool True) \<and> \<not> number_of (PBool True) < 1
   \<and> (\<exists>c. load_config boolean_size_config = Inr c
         \<and> map_of c ''max_buffer_size'' = Some (PBool True))"
  using load_config_accepts_boolean_size by (simp add: boolean_size_config_def)

end
